theory Spec2Isabelle
  imports Main "HOL-Library.Finite_Map"
begin

section \<open>Go values used by the Slack conversation adapter\<close>

subsection \<open>Errors\<close>

text \<open>
  A Go \<^verbatim>\<open>error\<close> value. \<open>ErrCacheEmpty\<close> is the package variable of
  \<^verbatim>\<open>conversation.go\<close> (line 36), \<open>ErrReadOnly\<close> the one of the \<^verbatim>\<open>gosync\<close> package,
  \<open>ClientError\<close> stands for whatever error a remote client hands back, and
  \<open>Errorf prefix e\<close> is \<^verbatim>\<open>fmt.Errorf(prefix + "%w", e)\<close>: a message wrapping \<open>e\<close>.
  A function returning \<^verbatim>\<open>error\<close> returns an \<open>error option\<close>, \<open>None\<close> being \<^verbatim>\<open>nil\<close>;
  a function returning \<^verbatim>\<open>(T, error)\<close> returns \<open>error + T\<close>.
\<close>

datatype error =
    ErrCacheEmpty
  | ErrReadOnly
  | ClientError string
  | Errorf string error

text \<open>
  \<^verbatim>\<open>errors.Is\<close>: follow the chain of wrapped errors until the target is met. Go
  compares error values by identity; equality of values stands for it here, which
  is exact when the target is one of the package variables \<open>ErrCacheEmpty\<close> and
  \<open>ErrReadOnly\<close>, the only targets used below.
\<close>

fun errors_Is :: "error \<Rightarrow> error \<Rightarrow> bool" where
  "errors_Is (Errorf msg e) target = (Errorf msg e = target \<or> errors_Is e target)"
| "errors_Is e target = (e = target)"

text \<open>A call returns, or the goroutine panics with a run-time error message.\<close>

datatype 'a outcome = Returns 'a | Panics string

subsection \<open>Maps\<close>

text \<open>
  A value of type \<^verbatim>\<open>map[string]string\<close> is either \<^verbatim>\<open>nil\<close> or a finite map.
  Reading a \<^verbatim>\<open>nil\<close> map behaves like reading an empty one, \<^verbatim>\<open>len\<close> of it is 0 and
  \<^verbatim>\<open>delete\<close> on it does nothing, but assigning to an entry of it panics.
\<close>

datatype gomap = NilMap | Map "(string, string) fmap"

fun map_len :: "gomap \<Rightarrow> nat" where
  "map_len NilMap = 0"
| "map_len (Map m) = fcard (fmdom m)"

fun map_lookup :: "gomap \<Rightarrow> string \<Rightarrow> string option" where
  "map_lookup NilMap k = None"
| "map_lookup (Map m) k = fmlookup m k"

text \<open>\<^verbatim>\<open>m[k]\<close> as an expression: the zero value \<^verbatim>\<open>""\<close> when there is no entry.\<close>

definition map_index :: "gomap \<Rightarrow> string \<Rightarrow> string" where
  "map_index m k = (case map_lookup m k of None \<Rightarrow> [] | Some v \<Rightarrow> v)"

text \<open>\<^verbatim>\<open>m[k] = v\<close>: \<open>None\<close> is the panic on a \<^verbatim>\<open>nil\<close> map.\<close>

fun map_assign :: "gomap \<Rightarrow> string \<Rightarrow> string \<Rightarrow> gomap option" where
  "map_assign NilMap k v = None"
| "map_assign (Map m) k v = Some (Map (fmupd k v m))"

fun map_delete :: "gomap \<Rightarrow> string \<Rightarrow> gomap" where
  "map_delete NilMap k = NilMap"
| "map_delete (Map m) k = Map (fmdrop k m)"

definition nil_map_panic :: string where
  "nil_map_panic = ''assignment to entry in nil map''"

subsection \<open>The Slack client boundary\<close>

record UserProfile =
  Email :: string

record User =
  ID :: string
  IsBot :: bool
  Profile :: UserProfile

record GetUsersInConversationParameters =
  ChannelID :: string
  Cursor :: string
  Limit :: nat

text \<open>
  \<^verbatim>\<open>iSlackConversation\<close> (lines 20-26): the five methods the adapter needs. The client
  is external, so each method is a function of its arguments and of the state \<open>'s\<close>
  behind the interface, returning its answer and the next state; an answer may
  therefore depend on everything that was asked before. An answer is an error or
  a value: where the Go method returns a pointer and an error, the pointer is
  taken to be non-nil whenever the error is \<^verbatim>\<open>nil\<close>. The channel that
  \<^verbatim>\<open>InviteUsersToConversation\<close> returns is discarded by the adapter (line 140) and
  left out.
\<close>

record 's iSlackConversation =
  GetUsersInConversation ::
    "GetUsersInConversationParameters \<Rightarrow> 's \<Rightarrow> (error + string list \<times> string) \<times> 's"
  GetUsersInfo :: "string list \<Rightarrow> 's \<Rightarrow> (error + User list) \<times> 's"
  GetUserByEmail :: "string \<Rightarrow> 's \<Rightarrow> (error + User) \<times> 's"
  InviteUsersToConversation :: "string \<Rightarrow> string list \<Rightarrow> 's \<Rightarrow> error option \<times> 's"
  KickUserFromConversation :: "string \<Rightarrow> string \<Rightarrow> 's \<Rightarrow> error option \<times> 's"

text \<open>What was asked of the client, in the order of the calls.\<close>

datatype call =
    CallGetUsersInConversation GetUsersInConversationParameters
  | CallGetUsersInfo "string list"
  | CallGetUserByEmail string
  | CallInviteUsersToConversation string "string list"
  | CallKickUserFromConversation string string

section \<open>The adapter\<close>

text \<open>
  The struct \<^verbatim>\<open>Conversation\<close> (lines 28-33). The field \<^verbatim>\<open>client\<close> is an interface value:
  \<open>client\<close> holds its methods, \<open>remote\<close> the state behind it and \<open>calls\<close> the
  requests made through it so far (what a test double records). The logger only
  writes diagnostics and is left out.
\<close>

record 's Conversation =
  client :: "'s iSlackConversation"
  remote :: 's
  calls :: "call list"
  conversationName :: string
  cache :: gomap

text \<open>\<^verbatim>\<open>New\<close> (lines 46-59), for a client in state \<open>s\<close>.\<close>

definition New ::
  "'s iSlackConversation \<Rightarrow> 's \<Rightarrow> string \<Rightarrow> ('s Conversation \<Rightarrow> 's Conversation) list
    \<Rightarrow> 's Conversation" where
  "New cl s channelName optsFn =
     fold (\<lambda>fn conversation. fn conversation) optsFn
       \<lparr>client = cl, remote = s, calls = [], conversationName = channelName,
        cache = Map fmempty\<rparr>"

subsection \<open>Calling the client\<close>

definition call_GetUsersInConversation ::
  "'s Conversation \<Rightarrow> GetUsersInConversationParameters
    \<Rightarrow> (error + string list \<times> string) \<times> 's Conversation" where
  "call_GetUsersInConversation c params =
     (case GetUsersInConversation (client c) params (remote c) of
        (r, s') \<Rightarrow> (r, c\<lparr>remote := s', calls := calls c @ [CallGetUsersInConversation params]\<rparr>))"

definition call_GetUsersInfo ::
  "'s Conversation \<Rightarrow> string list \<Rightarrow> (error + User list) \<times> 's Conversation" where
  "call_GetUsersInfo c users =
     (case GetUsersInfo (client c) users (remote c) of
        (r, s') \<Rightarrow> (r, c\<lparr>remote := s', calls := calls c @ [CallGetUsersInfo users]\<rparr>))"

definition call_GetUserByEmail ::
  "'s Conversation \<Rightarrow> string \<Rightarrow> (error + User) \<times> 's Conversation" where
  "call_GetUserByEmail c email =
     (case GetUserByEmail (client c) email (remote c) of
        (r, s') \<Rightarrow> (r, c\<lparr>remote := s', calls := calls c @ [CallGetUserByEmail email]\<rparr>))"

definition call_InviteUsersToConversation ::
  "'s Conversation \<Rightarrow> string \<Rightarrow> string list \<Rightarrow> error option \<times> 's Conversation" where
  "call_InviteUsersToConversation c channelID users =
     (case InviteUsersToConversation (client c) channelID users (remote c) of
        (r, s') \<Rightarrow>
          (r, c\<lparr>remote := s',
                calls := calls c @ [CallInviteUsersToConversation channelID users]\<rparr>))"

definition call_KickUserFromConversation ::
  "'s Conversation \<Rightarrow> string \<Rightarrow> string \<Rightarrow> error option \<times> 's Conversation" where
  "call_KickUserFromConversation c channelID user =
     (case KickUserFromConversation (client c) channelID user (remote c) of
        (r, s') \<Rightarrow>
          (r, c\<lparr>remote := s',
                calls := calls c @ [CallKickUserFromConversation channelID user]\<rparr>))"

subsection \<open>\<^verbatim>\<open>getListOfSlackUsernames\<close> (lines 62-91)\<close>

text \<open>
  The \<^verbatim>\<open>for\<close> loop has no bound: it is a partial function, \<open>None\<close> when it never
  leaves the loop. \<open>cursor\<close> and \<open>users\<close> are the loop's variables.
\<close>

partial_function (option) getListOfSlackUsernames_loop ::
  "'s Conversation \<Rightarrow> string \<Rightarrow> string list
    \<Rightarrow> ((error + string list) \<times> 's Conversation) option" where
  "getListOfSlackUsernames_loop c cursor users =
     (case call_GetUsersInConversation c
             \<lparr>ChannelID = conversationName c, Cursor = cursor, Limit = 50\<rparr> of
        (Inl err, c') \<Rightarrow>
          Some (Inl (Errorf (''getusersinconversation('' @ conversationName c @ '') -> '') err),
                c')
      | (Inr (pageOfUsers, cursor'), c') \<Rightarrow>
          if cursor' = [] then Some (Inr (users @ pageOfUsers), c')
          else getListOfSlackUsernames_loop c' cursor' (users @ pageOfUsers))"

definition getListOfSlackUsernames ::
  "'s Conversation \<Rightarrow> ((error + string list) \<times> 's Conversation) option" where
  "getListOfSlackUsernames c = getListOfSlackUsernames_loop c [] []"

subsection \<open>\<^verbatim>\<open>Get\<close> (lines 94-121)\<close>

text \<open>The loop of lines 109-116 over the resolved users; \<open>emails\<close> is its accumulator.\<close>

fun Get_loop ::
  "'s Conversation \<Rightarrow> User list \<Rightarrow> string list
    \<Rightarrow> (error + string list) outcome \<times> 's Conversation" where
  "Get_loop c [] emails = (Returns (Inr emails), c)"
| "Get_loop c (user # rest) emails =
     (if \<not> IsBot user then
        (case map_assign (cache c) (Email (Profile user)) (ID user) of
           None \<Rightarrow> (Panics nil_map_panic, c)
         | Some m \<Rightarrow> Get_loop (c\<lparr>cache := m\<rparr>) rest (emails @ [Email (Profile user)]))
      else Get_loop c rest emails)"

definition Get ::
  "'s Conversation \<Rightarrow> ((error + string list) outcome \<times> 's Conversation) option" where
  "Get c =
     (case getListOfSlackUsernames c of
        None \<Rightarrow> None
      | Some (Inl err, c1) \<Rightarrow>
          Some (Returns (Inl (Errorf ''slack.conversation.get.getlistofslackusernames -> '' err)),
                c1)
      | Some (Inr slackUsers, c1) \<Rightarrow>
          (case call_GetUsersInfo c1 slackUsers of
             (Inl err, c2) \<Rightarrow>
               Some (Returns (Inl (Errorf ''slack.conversation.get.getusersinfo -> '' err)), c2)
           | (Inr users, c2) \<Rightarrow> Some (Get_loop c2 users [])))"

subsection \<open>\<^verbatim>\<open>Add\<close> (lines 124-150)\<close>

text \<open>
  The loop of lines 129-138; \<open>index\<close> is the position in \<^verbatim>\<open>emails\<close> and \<open>slackIds\<close>
  the slice made at line 127.
\<close>

fun Add_loop ::
  "'s Conversation \<Rightarrow> string list \<Rightarrow> nat \<Rightarrow> string list
    \<Rightarrow> (error + string list) outcome \<times> 's Conversation" where
  "Add_loop c [] index slackIds = (Returns (Inr slackIds), c)"
| "Add_loop c (email # rest) index slackIds =
     (case call_GetUserByEmail c email of
        (Inl err, c1) \<Rightarrow>
          (Returns (Inl (Errorf (''slack.conversation.add.getuserbyemail('' @ email @ '') -> '')
                          err)), c1)
      | (Inr user, c1) \<Rightarrow>
          (case map_assign (cache c1) email (ID user) of
             None \<Rightarrow> (Panics nil_map_panic, c1)
           | Some m \<Rightarrow>
               Add_loop (c1\<lparr>cache := m\<rparr>) rest (Suc index) (slackIds[index := ID user])))"

definition Add :: "'s Conversation \<Rightarrow> string list \<Rightarrow> error option outcome \<times> 's Conversation" where
  "Add c emails =
     (case Add_loop c emails 0 (replicate (length emails) []) of
        (Panics msg, c1) \<Rightarrow> (Panics msg, c1)
      | (Returns (Inl err), c1) \<Rightarrow> (Returns (Some err), c1)
      | (Returns (Inr slackIds), c1) \<Rightarrow>
          (case call_InviteUsersToConversation c1 (conversationName c1) slackIds of
             (Some err, c2) \<Rightarrow>
               (Returns (Some (Errorf
                  (''slack.conversation.add.inviteuserstoconversation(''
                     @ conversationName c2 @ '', ...) -> '') err)),
                c2\<lparr>cache := NilMap\<rparr>)
           | (None, c2) \<Rightarrow> (Returns None, c2)))"

subsection \<open>\<^verbatim>\<open>Remove\<close> (lines 153-182)\<close>

text \<open>
  The loop of lines 161-177. The one-second sleep after each kick only
  passes time and is not part of the state.
\<close>

fun Remove_loop :: "'s Conversation \<Rightarrow> string list \<Rightarrow> error option \<times> 's Conversation" where
  "Remove_loop c [] = (None, c)"
| "Remove_loop c (email # rest) =
     (case call_KickUserFromConversation c (conversationName c) (map_index (cache c) email) of
        (Some err, c1) \<Rightarrow>
          (Some (Errorf
             (''slack.conversation.remove.kickuserfromconversation('' @ conversationName c1
                @ '', '' @ map_index (cache c1) email @ '') -> '') err), c1)
      | (None, c1) \<Rightarrow> Remove_loop (c1\<lparr>cache := map_delete (cache c1) email\<rparr>) rest)"

definition Remove :: "'s Conversation \<Rightarrow> string list \<Rightarrow> error option \<times> 's Conversation" where
  "Remove c emails =
     (if map_len (cache c) = 0
      then (Some (Errorf ''slack.conversation.remove -> '' ErrCacheEmpty), c)
      else Remove_loop c emails)"

section \<open>What the remote answers\<close>

text \<open>
  The properties below are stated for given answers of the remote along a run.
  \<open>serve_pages\<close>, \<open>resolve_emails\<close> and \<open>kick_all\<close> say what the remote answers
  to a series of requests; they only ask the client record and are not part of
  the adapter.
\<close>

text \<open>The listing request of lines 70-74 for a cursor.\<close>

definition page_request :: "string \<Rightarrow> string \<Rightarrow> call" where
  "page_request channel cursor =
     CallGetUsersInConversation \<lparr>ChannelID = channel, Cursor = cursor, Limit = 50\<rparr>"

text \<open>
  \<open>serve_pages cl channel cursor s pages = Some s'\<close>: asked for the channel's members
  with \<open>cursor\<close> in state \<open>s\<close>, then each time with the cursor of its previous answer,
  the remote answers with the \<open>pages\<close> (members and next cursor) in turn, without an
  error, and is then in state \<open>s'\<close>.
\<close>

fun serve_pages ::
  "'s iSlackConversation \<Rightarrow> string \<Rightarrow> string \<Rightarrow> 's \<Rightarrow> (string list \<times> string) list
    \<Rightarrow> 's option" where
  "serve_pages cl channel cursor s [] = Some s"
| "serve_pages cl channel cursor s ((page, next) # rest) =
     (case GetUsersInConversation cl \<lparr>ChannelID = channel, Cursor = cursor, Limit = 50\<rparr> s of
        (Inl err, s') \<Rightarrow> None
      | (Inr answer, s') \<Rightarrow>
          if answer = (page, next) then serve_pages cl channel next s' rest else None)"

text \<open>
  \<open>resolve_emails cl s emails = Some (users, s')\<close>: asked for the emails in turn from
  state \<open>s\<close>, the remote finds a user for each and is then in state \<open>s'\<close>.
\<close>

fun resolve_emails ::
  "'s iSlackConversation \<Rightarrow> 's \<Rightarrow> string list \<Rightarrow> (User list \<times> 's) option" where
  "resolve_emails cl s [] = Some ([], s)"
| "resolve_emails cl s (email # rest) =
     (case GetUserByEmail cl email s of
        (Inl err, s') \<Rightarrow> None
      | (Inr user, s') \<Rightarrow>
          (case resolve_emails cl s' rest of
             None \<Rightarrow> None
           | Some (users, s'') \<Rightarrow> Some (user # users, s'')))"

text \<open>
  \<open>kick_all cl channel s users = Some s'\<close>: asked to remove the users in turn from
  state \<open>s\<close>, the remote removes each and is then in state \<open>s'\<close>.
\<close>

fun kick_all :: "'s iSlackConversation \<Rightarrow> string \<Rightarrow> 's \<Rightarrow> string list \<Rightarrow> 's option" where
  "kick_all cl channel s [] = Some s"
| "kick_all cl channel s (user # rest) =
     (case KickUserFromConversation cl channel user s of
        (Some err, s') \<Rightarrow> None
      | (None, s') \<Rightarrow> kick_all cl channel s' rest)"

text \<open>
  The identifiers that the loop of \<^verbatim>\<open>Remove\<close> reads from the cache (line 162) for
  the emails in turn, each read coming after the deletions (line 173) for the
  emails before it.
\<close>

fun kick_targets :: "gomap \<Rightarrow> string list \<Rightarrow> string list" where
  "kick_targets m [] = []"
| "kick_targets m (email # rest) = map_index m email # kick_targets (map_delete m email) rest"

section \<open>The read-only on-call adapter\<close>

text \<open>
  The calls an on-call schedule client records, and the adapter as its test
  (\<^verbatim>\<open>oncall_internal_test.go\<close>) sees it: the schedule identifier and the client's
  recorded calls.
\<close>

datatype oncall_call = CallGetOnCalls string

record OnCall =
  scheduleID :: string
  oncall_calls :: "oncall_call list"

text \<open>
  Modelled from the spec: \<^verbatim>\<open>Add\<close> and \<^verbatim>\<open>Remove\<close> of the on-call adapter, whose file
  \<^verbatim>\<open>oncall.go\<close> is not among the sources (only its test is). Section 6: they
  "unconditionally fail with a ReadOnly error and perform zero remote calls";
  section 7: every error is wrapped with an operation-identifying prefix.
\<close>

definition OnCall_Add :: "OnCall \<Rightarrow> string list \<Rightarrow> error option \<times> OnCall" where
  "OnCall_Add a emails = (Some (Errorf ''oncall.add -> '' ErrReadOnly), a)"

definition OnCall_Remove :: "OnCall \<Rightarrow> string list \<Rightarrow> error option \<times> OnCall" where
  "OnCall_Remove a emails = (Some (Errorf ''oncall.remove -> '' ErrReadOnly), a)"

section \<open>A scripted client for concrete runs\<close>

text \<open>
  A client over a counter of the requests it has served. The conversation has the
  members \<open>U1\<close>, \<open>U2\<close> (people) and \<open>B1\<close> (a bot), listed on two pages; \<open>U2\<close> can be
  neither invited nor kicked, the channel \<open>down\<close> fails to list its second page, and
  user information is refused once seven requests have been served.
\<close>

definition demo_user :: "string \<Rightarrow> User" where
  "demo_user uid =
     (if uid = ''U1'' then \<lparr>ID = ''U1'', IsBot = False, Profile = \<lparr>Email = ''a@x.com''\<rparr>\<rparr>
      else if uid = ''U2'' then \<lparr>ID = ''U2'', IsBot = False, Profile = \<lparr>Email = ''b@x.com''\<rparr>\<rparr>
      else \<lparr>ID = uid, IsBot = True, Profile = \<lparr>Email = ''bot@x.com''\<rparr>\<rparr>)"

definition demo_client :: "nat iSlackConversation" where
  "demo_client =
     \<lparr>GetUsersInConversation = (\<lambda>params n.
        (if Cursor params = [] then Inr ([''U1'', ''B1''], ''p2'')
         else if Cursor params = ''p2'' \<and> ChannelID params \<noteq> ''down'' then Inr ([''U2''], [])
         else Inl (ClientError ''invalid_cursor''), Suc n)),
      GetUsersInfo = (\<lambda>users n.
        (if n < 7 then Inr (map demo_user users)
         else Inl (ClientError ''ratelimited''), Suc n)),
      GetUserByEmail = (\<lambda>email n.
        (if email = ''a@x.com'' then Inr (demo_user ''U1'')
         else if email = ''b@x.com'' then Inr (demo_user ''U2'')
         else Inl (ClientError ''users_not_found''), Suc n)),
      InviteUsersToConversation = (\<lambda>channelID users n.
        (if ''U2'' \<in> set users then Some (ClientError ''cant_invite'') else None, Suc n)),
      KickUserFromConversation = (\<lambda>channelID user n.
        (if user = ''U2'' then Some (ClientError ''cant_kick'') else None, Suc n))\<rparr>"

text \<open>A client whose listing always announces a further page.\<close>

definition endless_client :: "nat iSlackConversation" where
  "endless_client =
     demo_client\<lparr>GetUsersInConversation := (\<lambda>params n. (Inr ([''U1''], ''more''), Suc n))\<rparr>"

section \<open>Properties\<close>

lemma fmdom_empty_eq: "fmdom m = {||} \<longleftrightarrow> m = fmempty"
proof
  assume "fmdom m = {||}"
  then have "fmlookup m x = None" for x
    by (metis fmdom_notD fempty_iff)
  then show "m = fmempty"
    by (intro fmap_ext) simp
qed simp

lemma map_len_0_iff: "map_len m = 0 \<longleftrightarrow> m = NilMap \<or> m = Map fmempty"
  by (cases m) (simp_all add: fcard_0_eq fmdom_empty_eq)


subsection \<open>Pagination\<close>

lemma loop_follows_pages:
  assumes "serve_pages (client c) (conversationName c) cursor (remote c) pre = Some s1"
    and "\<forall>q \<in> set pre. snd q \<noteq> []"
  shows "getListOfSlackUsernames_loop c cursor users =
    getListOfSlackUsernames_loop
      (c\<lparr>remote := s1,
         calls := calls c @ map (page_request (conversationName c)) (butlast (cursor # map snd pre))\<rparr>)
      (last (cursor # map snd pre)) (users @ concat (map fst pre))"
  using assms
proof (induction pre arbitrary: c cursor users)
  case Nil
  then have "s1 = remote c" by simp
  then show ?case by simp
next
  case (Cons q pre)
  obtain page nxt where q: "q = (page, nxt)" by (cases q)
  from Cons.prems q obtain s' where
    ans: "GetUsersInConversation (client c) \<lparr>ChannelID = conversationName c, Cursor = cursor, Limit = 50\<rparr> (remote c) = (Inr (page, nxt), s')"
    and rest: "serve_pages (client c) (conversationName c) nxt s' pre = Some s1"
    by (auto split: prod.splits sum.splits if_splits)
  from Cons.prems q have nxt: "nxt \<noteq> []" and pre: "\<forall>q \<in> set pre. snd q \<noteq> []" by auto
  let ?c1 = "c\<lparr>remote := s', calls := calls c @ [page_request (conversationName c) cursor]\<rparr>"
  have step: "getListOfSlackUsernames_loop c cursor users =
      getListOfSlackUsernames_loop ?c1 nxt (users @ page)"
    by (subst getListOfSlackUsernames_loop.simps)
       (simp add: call_GetUsersInConversation_def ans nxt page_request_def)
  have "getListOfSlackUsernames_loop ?c1 nxt (users @ page) =
    getListOfSlackUsernames_loop
      (?c1\<lparr>remote := s1,
         calls := calls ?c1 @ map (page_request (conversationName ?c1)) (butlast (nxt # map snd pre))\<rparr>)
      (last (nxt # map snd pre)) ((users @ page) @ concat (map fst pre))"
    by (rule Cons.IH) (use rest pre in simp_all)
  with step show ?case
    by (simp add: q)
qed

lemma loop_returns_only_on_empty_cursor:
  fixes c :: "'s Conversation"
  assumes "getListOfSlackUsernames_loop c cursor users = Some (Inr result, c')"
  shows "\<exists>pre page.
      serve_pages (client c) (conversationName c) cursor (remote c) (pre @ [(page, [])])
        = Some (remote c')
    \<and> (\<forall>q \<in> set pre. snd q \<noteq> [])
    \<and> result = users @ concat (map fst pre) @ page
    \<and> c' = c\<lparr>remote := remote c',
              calls := calls c @ map (page_request (conversationName c)) (cursor # map snd pre)\<rparr>"
proof -
  define P :: "'s Conversation \<Rightarrow> string \<Rightarrow> string list
      \<Rightarrow> (error + string list) \<times> 's Conversation \<Rightarrow> bool"
    where "P = (\<lambda>c cursor users y. \<forall>result c'. y = (Inr result, c') \<longrightarrow> (\<exists>pre page.
      serve_pages (client c) (conversationName c) cursor (remote c) (pre @ [(page, [])])
        = Some (remote c')
    \<and> (\<forall>q \<in> set pre. snd q \<noteq> [])
    \<and> result = users @ concat (map fst pre) @ page
    \<and> c' = c\<lparr>remote := remote c',
              calls := calls c @ map (page_request (conversationName c)) (cursor # map snd pre)\<rparr>))"
  have "P c cursor users (Inr result, c')"
  proof (rule getListOfSlackUsernames_loop.raw_induct [where P = P, OF _ assms])
    fix f :: "'s Conversation \<Rightarrow> string \<Rightarrow> string list \<Rightarrow> ((error + string list) \<times> 's Conversation) option"
    fix c cursor users y
    assume IH: "\<And>c cursor users y. f c cursor users = Some y \<Longrightarrow> P c cursor users y"
    assume body: "(case call_GetUsersInConversation c
             \<lparr>ChannelID = conversationName c, Cursor = cursor, Limit = 50\<rparr> of
        (Inl err, c') \<Rightarrow>
          Some (Inl (Errorf (''getusersinconversation('' @ conversationName c @ '') -> '') err),
                c')
      | (Inr (pageOfUsers, cursor'), c') \<Rightarrow>
          if cursor' = [] then Some (Inr (users @ pageOfUsers), c')
          else f c' cursor' (users @ pageOfUsers)) = Some y"
    obtain r s' where ans: "GetUsersInConversation (client c)
        \<lparr>ChannelID = conversationName c, Cursor = cursor, Limit = 50\<rparr> (remote c) = (r, s')"
      by (cases "GetUsersInConversation (client c)
        \<lparr>ChannelID = conversationName c, Cursor = cursor, Limit = 50\<rparr> (remote c)")
    let ?c1 = "c\<lparr>remote := s', calls := calls c @ [page_request (conversationName c) cursor]\<rparr>"
    have call: "call_GetUsersInConversation c
             \<lparr>ChannelID = conversationName c, Cursor = cursor, Limit = 50\<rparr> = (r, ?c1)"
      by (simp add: call_GetUsersInConversation_def ans page_request_def)
    show "P c cursor users y"
    proof (cases r)
      case (Inl err)
      with body call show ?thesis by (auto simp: P_def)
    next
      case (Inr answer)
      obtain page nxt where answer: "answer = (page, nxt)" by (cases answer)
      show ?thesis
      proof (cases "nxt = []")
        case True
        with body call Inr answer have y: "y = (Inr (users @ page), ?c1)" by simp
        have "serve_pages (client c) (conversationName c) cursor (remote c) ([] @ [(page, [])])
            = Some (remote ?c1)"
          using ans Inr answer True by simp
        with y show ?thesis
          unfolding P_def by (intro allI impI exI [of _ "[]"] exI [of _ page]) auto
      next
        case False
        with body call Inr answer have "f ?c1 nxt (users @ page) = Some y" by simp
        from IH [OF this] have P1: "P ?c1 nxt (users @ page) y" .
        show ?thesis
          unfolding P_def
        proof (intro allI impI)
          fix result c'
          assume "y = (Inr result, c')"
          with P1 [unfolded P_def] obtain pre page' where
            sp: "serve_pages (client c) (conversationName c) nxt s' (pre @ [(page', [])]) = Some (remote c')"
            and ne: "\<forall>q \<in> set pre. snd q \<noteq> []"
            and res: "result = (users @ page) @ concat (map fst pre) @ page'"
            and c': "c' = ?c1\<lparr>remote := remote c',
              calls := calls ?c1 @ map (page_request (conversationName ?c1)) (nxt # map snd pre)\<rparr>"
            by auto
          have "serve_pages (client c) (conversationName c) cursor (remote c)
              (((page, nxt) # pre) @ [(page', [])]) = Some (remote c')"
            using ans Inr answer sp by simp
          moreover have "\<forall>q \<in> set ((page, nxt) # pre). snd q \<noteq> []"
            using ne False by simp
          moreover have "result = users @ concat (map fst ((page, nxt) # pre)) @ page'"
            using res by simp
          moreover have "c' = c\<lparr>remote := remote c',
              calls := calls c @ map (page_request (conversationName c)) (cursor # map snd ((page, nxt) # pre))\<rparr>"
            by (subst c') simp
          ultimately show "\<exists>pre page.
              serve_pages (client c) (conversationName c) cursor (remote c) (pre @ [(page, [])])
                = Some (remote c')
            \<and> (\<forall>q \<in> set pre. snd q \<noteq> [])
            \<and> result = users @ concat (map fst pre) @ page
            \<and> c' = c\<lparr>remote := remote c',
              calls := calls c @ map (page_request (conversationName c)) (cursor # map snd pre)\<rparr>"
            by blast
        qed
      qed
    qed
  qed
  then show ?thesis unfolding P_def by simp
qed

lemma loop_page_error:
  assumes "serve_pages (client c) (conversationName c) cursor (remote c) pre = Some s1"
    and "\<forall>q \<in> set pre. snd q \<noteq> []"
    and "GetUsersInConversation (client c)
           \<lparr>ChannelID = conversationName c, Cursor = last (cursor # map snd pre), Limit = 50\<rparr> s1
         = (Inl err, s2)"
  shows "getListOfSlackUsernames_loop c cursor users =
    Some (Inl (Errorf (''getusersinconversation('' @ conversationName c @ '') -> '') err),
          c\<lparr>remote := s2,
            calls := calls c @ map (page_request (conversationName c)) (cursor # map snd pre)\<rparr>)"
proof -
  have "cursor # map snd pre = butlast (cursor # map snd pre) @ [last (cursor # map snd pre)]"
    by (simp del: butlast.simps last.simps)
  then have split: "map (page_request (conversationName c)) (cursor # map snd pre) =
      map (page_request (conversationName c)) (butlast (cursor # map snd pre))
      @ [page_request (conversationName c) (last (cursor # map snd pre))]"
    by (metis list.simps(8,9) map_append)
  show ?thesis
    by (subst loop_follows_pages [OF assms(1,2)], subst getListOfSlackUsernames_loop.simps, subst split)
      (simp add: call_GetUsersInConversation_def assms(3) page_request_def
        del: butlast.simps last.simps)
qed

lemma loop_last_page:
  assumes "serve_pages (client c) (conversationName c) cursor (remote c) (pre @ [(page, [])])
        = Some s'"
    and "\<forall>q \<in> set pre. snd q \<noteq> []"
  shows "getListOfSlackUsernames_loop c cursor users =
    Some (Inr (users @ concat (map fst pre) @ page),
          c\<lparr>remote := s',
            calls := calls c @ map (page_request (conversationName c)) (cursor # map snd pre)\<rparr>)"
proof -
  have sp: "serve_pages cl ch cur s (xs @ ys) =
      (case serve_pages cl ch cur s xs of None \<Rightarrow> None
       | Some s1 \<Rightarrow> serve_pages cl ch (last (cur # map snd xs)) s1 ys)"
    for cl :: "'s iSlackConversation" and ch cur s xs ys
    by (induction xs arbitrary: cur s) (auto split: prod.splits sum.splits option.splits)
  from assms(1) obtain s1 where
    pre: "serve_pages (client c) (conversationName c) cursor (remote c) pre = Some s1"
    and fin: "serve_pages (client c) (conversationName c) (last (cursor # map snd pre)) s1
        [(page, [])] = Some s'"
    by (auto simp: sp split: option.splits simp del: last.simps)
  from fin have ans: "GetUsersInConversation (client c)
           \<lparr>ChannelID = conversationName c, Cursor = last (cursor # map snd pre), Limit = 50\<rparr> s1
         = (Inr (page, []), s')"
    by (auto split: prod.splits sum.splits if_splits simp del: last.simps)
  have "cursor # map snd pre = butlast (cursor # map snd pre) @ [last (cursor # map snd pre)]"
    by (simp del: butlast.simps last.simps)
  then have split: "map (page_request (conversationName c)) (cursor # map snd pre) =
      map (page_request (conversationName c)) (butlast (cursor # map snd pre))
      @ [page_request (conversationName c) (last (cursor # map snd pre))]"
    by (metis list.simps(8,9) map_append)
  show ?thesis
    by (subst loop_follows_pages [OF pre assms(2)], subst getListOfSlackUsernames_loop.simps, subst split)
      (simp add: call_GetUsersInConversation_def ans page_request_def
        del: butlast.simps last.simps)
qed

lemma loop_never_returns:
  fixes c :: "'s Conversation"
  assumes "\<forall>params s. \<exists>page cursor' s'.
      GetUsersInConversation (client c) params s = (Inr (page, cursor'), s') \<and> cursor' \<noteq> []"
  shows "getListOfSlackUsernames_loop c cursor users = None"
proof (rule ccontr)
  assume "getListOfSlackUsernames_loop c cursor users \<noteq> None"
  then obtain y where y: "getListOfSlackUsernames_loop c cursor users = Some y" by auto
  define P :: "'s Conversation \<Rightarrow> string \<Rightarrow> string list
      \<Rightarrow> (error + string list) \<times> 's Conversation \<Rightarrow> bool"
    where "P = (\<lambda>c cursor users y. \<not> (\<forall>params s. \<exists>page cursor' s'.
      GetUsersInConversation (client c) params s = (Inr (page, cursor'), s') \<and> cursor' \<noteq> []))"
  have "P c cursor users y"
  proof (rule getListOfSlackUsernames_loop.raw_induct [where P = P, OF _ y])
    fix f :: "'s Conversation \<Rightarrow> string \<Rightarrow> string list \<Rightarrow> ((error + string list) \<times> 's Conversation) option"
    fix c cursor users y
    assume IH: "\<And>c cursor users y. f c cursor users = Some y \<Longrightarrow> P c cursor users y"
    assume body: "(case call_GetUsersInConversation c
             \<lparr>ChannelID = conversationName c, Cursor = cursor, Limit = 50\<rparr> of
        (Inl err, c') \<Rightarrow>
          Some (Inl (Errorf (''getusersinconversation('' @ conversationName c @ '') -> '') err),
                c')
      | (Inr (pageOfUsers, cursor'), c') \<Rightarrow>
          if cursor' = [] then Some (Inr (users @ pageOfUsers), c')
          else f c' cursor' (users @ pageOfUsers)) = Some y"
    show "P c cursor users y"
      unfolding P_def
    proof
      assume always: "\<forall>params s. \<exists>page cursor' s'.
        GetUsersInConversation (client c) params s = (Inr (page, cursor'), s') \<and> cursor' \<noteq> []"
      then obtain page nxt s' where ans: "GetUsersInConversation (client c)
          \<lparr>ChannelID = conversationName c, Cursor = cursor, Limit = 50\<rparr> (remote c)
          = (Inr (page, nxt), s')" and nxt: "nxt \<noteq> []"
        by blast
      let ?c1 = "c\<lparr>remote := s', calls := calls c @ [page_request (conversationName c) cursor]\<rparr>"
      from body ans nxt have "f ?c1 nxt (users @ page) = Some y"
        by (simp add: call_GetUsersInConversation_def page_request_def)
      from IH [OF this] have "P c nxt (users @ page) y"
        by (simp add: P_def)
      then have "\<not> (\<forall>params s. \<exists>page cursor' s'.
        GetUsersInConversation (client c) params s = (Inr (page, cursor'), s') \<and> cursor' \<noteq> [])"
        unfolding P_def .
      from this always show False by (rule notE)
    qed
  qed
  then have "\<not> (\<forall>params s. \<exists>page cursor' s'.
      GetUsersInConversation (client c) params s = (Inr (page, cursor'), s') \<and> cursor' \<noteq> [])"
    unfolding P_def .
  from this assms show False by (rule notE)
qed

lemma getListOfSlackUsernames_returns_iff:
  "getListOfSlackUsernames c = Some (Inr users, c') \<longleftrightarrow>
     (\<exists>pre page.
        serve_pages (client c) (conversationName c) [] (remote c) (pre @ [(page, [])])
          = Some (remote c')
      \<and> (\<forall>q \<in> set pre. snd q \<noteq> [])
      \<and> users = concat (map fst pre) @ page
      \<and> c' = c\<lparr>remote := remote c',
                calls := calls c @ map (page_request (conversationName c)) ([] # map snd pre)\<rparr>)"
proof
  assume "getListOfSlackUsernames c = Some (Inr users, c')"
  then have "getListOfSlackUsernames_loop c [] [] = Some (Inr users, c')"
    by (simp add: getListOfSlackUsernames_def)
  from loop_returns_only_on_empty_cursor [OF this] show
    "\<exists>pre page.
        serve_pages (client c) (conversationName c) [] (remote c) (pre @ [(page, [])])
          = Some (remote c')
      \<and> (\<forall>q \<in> set pre. snd q \<noteq> [])
      \<and> users = concat (map fst pre) @ page
      \<and> c' = c\<lparr>remote := remote c',
                calls := calls c @ map (page_request (conversationName c)) ([] # map snd pre)\<rparr>"
    by simp
next
  assume "\<exists>pre page.
        serve_pages (client c) (conversationName c) [] (remote c) (pre @ [(page, [])])
          = Some (remote c')
      \<and> (\<forall>q \<in> set pre. snd q \<noteq> [])
      \<and> users = concat (map fst pre) @ page
      \<and> c' = c\<lparr>remote := remote c',
                calls := calls c @ map (page_request (conversationName c)) ([] # map snd pre)\<rparr>"
  then obtain pre page where
    sp: "serve_pages (client c) (conversationName c) [] (remote c) (pre @ [(page, [])])
          = Some (remote c')"
    and ne: "\<forall>q \<in> set pre. snd q \<noteq> []"
    and users: "users = concat (map fst pre) @ page"
    and c': "c' = c\<lparr>remote := remote c',
                calls := calls c @ map (page_request (conversationName c)) ([] # map snd pre)\<rparr>"
    by blast
  from loop_last_page [OF sp ne, of "[]"] users c'
  show "getListOfSlackUsernames c = Some (Inr users, c')"
    by (simp add: getListOfSlackUsernames_def)
qed

text \<open>
  C7. \<^verbatim>\<open>getListOfSlackUsernames\<close> returns a list exactly when the remote, asked first
  with the empty cursor and then each time with the cursor of its previous answer,
  reaches an answer whose cursor is empty. It has then made one request per answer
  up to that first empty cursor and none after it, whatever the remote still
  holds: the cursors of its requests are the empty one followed by the cursors
  returned before the last answer, and the list is the pages in order. The loop
  is left with a list in no other way: against a remote that always answers with
  a page and a cursor that is not empty, the call never returns. (An error answer
  ends the call with that error, see \<open>loop_page_error\<close>.)
\<close>

theorem getListOfSlackUsernames_pagination:
  "(getListOfSlackUsernames c = Some (Inr users, c') \<longleftrightarrow>
     (\<exists>pre page.
        serve_pages (client c) (conversationName c) [] (remote c) (pre @ [(page, [])])
          = Some (remote c')
      \<and> (\<forall>q \<in> set pre. snd q \<noteq> [])
      \<and> users = concat (map fst pre) @ page
      \<and> c' = c\<lparr>remote := remote c',
                calls := calls c @ map (page_request (conversationName c)) ([] # map snd pre)\<rparr>))
   \<and> ((\<forall>params s. \<exists>page cursor' s'.
          GetUsersInConversation (client c) params s = (Inr (page, cursor'), s')
          \<and> cursor' \<noteq> [])
      \<longrightarrow> getListOfSlackUsernames c = None)"
proof (intro conjI impI)
  show "getListOfSlackUsernames c = Some (Inr users, c') \<longleftrightarrow>
     (\<exists>pre page.
        serve_pages (client c) (conversationName c) [] (remote c) (pre @ [(page, [])])
          = Some (remote c')
      \<and> (\<forall>q \<in> set pre. snd q \<noteq> [])
      \<and> users = concat (map fst pre) @ page
      \<and> c' = c\<lparr>remote := remote c',
                calls := calls c @ map (page_request (conversationName c)) ([] # map snd pre)\<rparr>)"
    by (rule getListOfSlackUsernames_returns_iff)
next
  assume "\<forall>params s. \<exists>page cursor' s'.
          GetUsersInConversation (client c) params s = (Inr (page, cursor'), s')
          \<and> cursor' \<noteq> []"
  then show "getListOfSlackUsernames c = None"
    unfolding getListOfSlackUsernames_def by (rule loop_never_returns)
qed

theorem getListOfSlackUsernames_pagination_witness:
  "getListOfSlackUsernames (New demo_client 0 ''C1'' []) =
     Some (Inr [''U1'', ''B1'', ''U2''],
           \<lparr>client = demo_client, remote = 2,
            calls = [page_request ''C1'' [], page_request ''C1'' ''p2''],
            conversationName = ''C1'', cache = Map fmempty\<rparr>)
   \<and> getListOfSlackUsernames (New endless_client 0 ''C1'' []) = None"
proof -
  let ?c = "New demo_client 0 ''C1'' []"
  let ?c' = "\<lparr>client = demo_client, remote = 2::nat,
            calls = [page_request ''C1'' [], page_request ''C1'' ''p2''],
            conversationName = ''C1'', cache = Map fmempty\<rparr>"
  have "serve_pages (client ?c) (conversationName ?c) [] (remote ?c)
          ([([''U1'', ''B1''], ''p2'')] @ [([''U2''], [])]) = Some (remote ?c')
      \<and> (\<forall>q \<in> set [([''U1'', ''B1''], ''p2'')]. snd q \<noteq> [])
      \<and> [''U1'', ''B1'', ''U2''] = concat (map fst [([''U1'', ''B1''], ''p2'')]) @ [''U2'']
      \<and> ?c' = ?c\<lparr>remote := remote ?c',
                calls := calls ?c @ map (page_request (conversationName ?c))
                  ([] # map snd [([''U1'', ''B1''], ''p2'')])\<rparr>"
    by (simp add: New_def demo_client_def)
  then have "\<exists>pre page.
        serve_pages (client ?c) (conversationName ?c) [] (remote ?c) (pre @ [(page, [])])
          = Some (remote ?c')
      \<and> (\<forall>q \<in> set pre. snd q \<noteq> [])
      \<and> [''U1'', ''B1'', ''U2''] = concat (map fst pre) @ page
      \<and> ?c' = ?c\<lparr>remote := remote ?c',
                calls := calls ?c @ map (page_request (conversationName ?c)) ([] # map snd pre)\<rparr>"
    by blast
  then have returns: "getListOfSlackUsernames ?c = Some (Inr [''U1'', ''B1'', ''U2''], ?c')"
    by (rule getListOfSlackUsernames_pagination [THEN conjunct1, THEN iffD2])
  have "\<forall>params s. \<exists>page cursor' s'.
      GetUsersInConversation (client (New endless_client 0 ''C1'' [])) params s
        = (Inr (page, cursor'), s') \<and> cursor' \<noteq> []"
    by (simp add: New_def endless_client_def)
  then have "getListOfSlackUsernames (New endless_client 0 ''C1'' []) = None"
    by (rule getListOfSlackUsernames_pagination [THEN conjunct2, THEN mp])
  with returns show ?thesis
    by simp
qed

subsection \<open>Removing with an empty cache\<close>

text \<open>
  C3. Whatever the list of emails, \<^verbatim>\<open>Remove\<close> on an adapter whose cache has no
  entry (\<^verbatim>\<open>len(c.cache) == 0\<close>, a \<^verbatim>\<open>nil\<close> map included) returns an error that is
  \<open>ErrCacheEmpty\<close> wrapped, and leaves the whole adapter as it was: no call was
  made through the client and the cache is unchanged.
\<close>

theorem Remove_cache_empty:
  assumes "map_len (cache c) = 0"
  shows "Remove c emails = (Some (Errorf ''slack.conversation.remove -> '' ErrCacheEmpty), c)
    \<and> errors_Is (Errorf ''slack.conversation.remove -> '' ErrCacheEmpty) ErrCacheEmpty"
  using assms by (simp add: Remove_def)

theorem Remove_cache_empty_witness:
  "map_len (cache (New demo_client 0 ''C1'' [])) = 0
   \<and> Remove (New demo_client 0 ''C1'' []) [''a@x.com'', ''b@x.com'']
       = (Some (Errorf ''slack.conversation.remove -> '' ErrCacheEmpty),
          New demo_client 0 ''C1'' [])
   \<and> calls (New demo_client 0 ''C1'' []) = []"
proof -
  have h: "map_len (cache (New demo_client 0 ''C1'' [])) = 0"
    by (simp add: New_def)
  have "calls (New demo_client 0 ''C1'' []) = []"
    by (simp add: New_def)
  with h Remove_cache_empty [OF h, of "[''a@x.com'', ''b@x.com'']"] show ?thesis
    by simp
qed

subsection \<open>The read-only adapter\<close>

text \<open>
  C9. For every list of emails (the non-empty ones among them), \<^verbatim>\<open>Add\<close> and
  \<^verbatim>\<open>Remove\<close> of the read-only on-call adapter return an error that is
  \<open>ErrReadOnly\<close> and leave the client's recorded calls as they were: no remote
  call is made.
\<close>

theorem OnCall_read_only:
  "(\<exists>err. fst (OnCall_Add a emails) = Some err \<and> errors_Is err ErrReadOnly)
   \<and> oncall_calls (snd (OnCall_Add a emails)) = oncall_calls a
   \<and> (\<exists>err. fst (OnCall_Remove a emails) = Some err \<and> errors_Is err ErrReadOnly)
   \<and> oncall_calls (snd (OnCall_Remove a emails)) = oncall_calls a"
  by (simp add: OnCall_Add_def OnCall_Remove_def)

subsection \<open>Get\<close>

lemma fold_fmupd_lookup:
  "fmlookup (fold (\<lambda>u. fmupd (k u) (v u)) us m) e =
     (case map_of (rev (map (\<lambda>u. (k u, v u)) us)) e of
        None \<Rightarrow> fmlookup m e
      | Some i \<Rightarrow> Some i)"
  by (induction us arbitrary: m) (auto simp: map_add_def split: option.splits)

lemma Get_loop_Map:
  assumes "cache c = Map m"
  shows "Get_loop c users emails =
    (Returns (Inr (emails @ map (\<lambda>u. Email (Profile u)) (filter (\<lambda>u. \<not> IsBot u) users))),
     c\<lparr>cache := Map (fold (\<lambda>u. fmupd (Email (Profile u)) (ID u))
                        (filter (\<lambda>u. \<not> IsBot u) users) m)\<rparr>)"
  using assms
proof (induction users arbitrary: c m emails)
  case Nil
  from Nil [symmetric] show ?case by simp
next
  case (Cons user users)
  show ?case
  proof (cases "IsBot user")
    case True
    with Cons show ?thesis by simp
  next
    case False
    have "Get_loop c (user # users) emails =
        Get_loop (c\<lparr>cache := Map (fmupd (Email (Profile user)) (ID user) m)\<rparr>) users
          (emails @ [Email (Profile user)])"
      using False Cons.prems by simp
    also have "\<dots> = (Returns (Inr ((emails @ [Email (Profile user)])
          @ map (\<lambda>u. Email (Profile u)) (filter (\<lambda>u. \<not> IsBot u) users))),
        (c\<lparr>cache := Map (fmupd (Email (Profile user)) (ID user) m)\<rparr>)
          \<lparr>cache := Map (fold (\<lambda>u. fmupd (Email (Profile u)) (ID u))
                        (filter (\<lambda>u. \<not> IsBot u) users)
                        (fmupd (Email (Profile user)) (ID user) m))\<rparr>)"
      by (rule Cons.IH) simp
    finally show ?thesis using False by simp
  qed
qed

lemma Get_loop_NilMap:
  assumes "cache c = NilMap"
  shows "Get_loop c users emails =
    (if \<exists>u \<in> set users. \<not> IsBot u then (Panics nil_map_panic, c) else (Returns (Inr emails), c))"
  using assms by (induction users arbitrary: emails) auto

lemma Get_pages_served:
  assumes "serve_pages (client c) (conversationName c) [] (remote c) (pre @ [(page, [])])
        = Some s1"
    and "\<forall>q \<in> set pre. snd q \<noteq> []"
  shows "Get c =
    (case GetUsersInfo (client c) (concat (map fst pre) @ page) s1 of
       (Inl err, s2) \<Rightarrow>
         Some (Returns (Inl (Errorf ''slack.conversation.get.getusersinfo -> '' err)),
               c\<lparr>remote := s2,
                 calls := calls c @ map (page_request (conversationName c)) ([] # map snd pre)
                   @ [CallGetUsersInfo (concat (map fst pre) @ page)]\<rparr>)
     | (Inr users, s2) \<Rightarrow>
         Some (Get_loop
               (c\<lparr>remote := s2,
                  calls := calls c @ map (page_request (conversationName c)) ([] # map snd pre)
                   @ [CallGetUsersInfo (concat (map fst pre) @ page)]\<rparr>) users []))"
  using loop_last_page [OF assms, of "[]"]
  by (simp add: Get_def getListOfSlackUsernames_def call_GetUsersInfo_def split: prod.splits sum.splits)

lemma Get_page_error:
  assumes "serve_pages (client c) (conversationName c) [] (remote c) pre = Some s1"
    and "\<forall>q \<in> set pre. snd q \<noteq> []"
    and "GetUsersInConversation (client c)
           \<lparr>ChannelID = conversationName c, Cursor = last ([] # map snd pre), Limit = 50\<rparr> s1
         = (Inl err, s2)"
  shows "Get c =
    Some (Returns (Inl (Errorf ''slack.conversation.get.getlistofslackusernames -> ''
             (Errorf (''getusersinconversation('' @ conversationName c @ '') -> '') err))),
          c\<lparr>remote := s2,
            calls := calls c @ map (page_request (conversationName c)) ([] # map snd pre)\<rparr>)"
  using loop_page_error [OF assms, of "[]"]
  by (simp add: Get_def getListOfSlackUsernames_def)

lemma fold_fmupd_recorded:
  assumes "e \<in> k ` set us"
  shows "\<exists>u \<in> set us. k u = e \<and> fmlookup (fold (\<lambda>u. fmupd (k u) (v u)) us m) e = Some (v u)"
proof -
  from assms have "e \<in> fst ` set (rev (map (\<lambda>u. (k u, v u)) us))"
    by force
  then obtain i where i: "map_of (rev (map (\<lambda>u. (k u, v u)) us)) e = Some i"
    by (metis map_of_eq_None_iff not_Some_eq)
  then have "(e, i) \<in> set (rev (map (\<lambda>u. (k u, v u)) us))"
    by (rule map_of_SomeD)
  then obtain u where "u \<in> set us" "k u = e" "v u = i"
    by auto
  with i show ?thesis
    by (auto simp: fold_fmupd_lookup)
qed

lemma fold_fmupd_others:
  assumes "e \<notin> k ` set us"
  shows "fmlookup (fold (\<lambda>u. fmupd (k u) (v u)) us m) e = fmlookup m e"
proof -
  from assms have "e \<notin> fst ` set (rev (map (\<lambda>u. (k u, v u)) us))"
    by force
  then have "map_of (rev (map (\<lambda>u. (k u, v u)) us)) e = None"
    by (simp add: map_of_eq_None_iff)
  then show ?thesis
    by (simp add: fold_fmupd_lookup)
qed

text \<open>
  \<^verbatim>\<open>Get\<close> on an adapter whose cache is a map. Let the remote serve the listing as
  pages ending with an empty cursor, and let the information call for the members
  of all these pages, in order, answer with \<open>users\<close>. Then \<^verbatim>\<open>Get\<close> returns the emails
  of the users that are not bots, in the order of the answer, after one listing
  request per page and one information request; the cache is the old one with
  \<open>email \<mapsto> ID\<close> written for each of these users in turn. Hence every returned
  email is mapped to the identifier of a non-bot user carrying it; a non-bot user
  is mapped to its own identifier unless another non-bot user with the same email
  and a different identifier is in the answer (the later write wins); and an
  email that is not returned, a bot's for one, keeps the entry or the absence of
  entry it had: no bot is returned or written to the cache.
\<close>

lemma Get_returns_human_emails:
  assumes "serve_pages (client c) (conversationName c) [] (remote c) (pre @ [(page, [])])
        = Some s1"
    and "\<forall>q \<in> set pre. snd q \<noteq> []"
    and "GetUsersInfo (client c) (concat (map fst pre) @ page) s1 = (Inr users, s2)"
    and "cache c = Map m"
  shows "let humans = filter (\<lambda>u. \<not> IsBot u) users;
             emails = map (\<lambda>u. Email (Profile u)) humans;
             m' = fold (\<lambda>u. fmupd (Email (Profile u)) (ID u)) humans m
         in Get c =
              Some (Returns (Inr emails),
                    c\<lparr>remote := s2,
                      calls := calls c
                        @ map (page_request (conversationName c)) ([] # map snd pre)
                        @ [CallGetUsersInfo (concat (map fst pre) @ page)],
                      cache := Map m'\<rparr>)
          \<and> (\<forall>e \<in> set emails. \<exists>u \<in> set humans.
                Email (Profile u) = e \<and> fmlookup m' e = Some (ID u))
          \<and> (\<forall>u \<in> set humans.
                (\<forall>v \<in> set humans. Email (Profile v) = Email (Profile u) \<longrightarrow> ID v = ID u)
                \<longrightarrow> fmlookup m' (Email (Profile u)) = Some (ID u))
          \<and> (\<forall>e. e \<notin> set emails \<longrightarrow> fmlookup m' e = fmlookup m e)"
proof -
  define humans where "humans = filter (\<lambda>u. \<not> IsBot u) users"
  define m' where "m' = fold (\<lambda>u. fmupd (Email (Profile u)) (ID u)) humans m"
  have run: "Get c =
      Some (Returns (Inr (map (\<lambda>u. Email (Profile u)) humans)),
            c\<lparr>remote := s2,
              calls := calls c
                @ map (page_request (conversationName c)) ([] # map snd pre)
                @ [CallGetUsersInfo (concat (map fst pre) @ page)],
              cache := Map m'\<rparr>)"
    unfolding humans_def m'_def
    by (subst Get_pages_served [OF assms(1,2)], simp only: assms(3) prod.case sum.case,
        subst Get_loop_Map [where m = m]) (simp_all add: assms(4))
  have recorded: "\<exists>u \<in> set humans. Email (Profile u) = e \<and> fmlookup m' e = Some (ID u)"
    if "e \<in> set (map (\<lambda>u. Email (Profile u)) humans)" for e
    unfolding m'_def using that by (intro fold_fmupd_recorded) simp
  have own: "fmlookup m' (Email (Profile u)) = Some (ID u)"
    if "u \<in> set humans"
      and "\<forall>v \<in> set humans. Email (Profile v) = Email (Profile u) \<longrightarrow> ID v = ID u" for u
  proof -
    from that(1) have "Email (Profile u) \<in> set (map (\<lambda>u. Email (Profile u)) humans)"
      by simp
    from recorded [OF this] that(2) show ?thesis
      by auto
  qed
  have others: "fmlookup m' e = fmlookup m e"
    if "e \<notin> set (map (\<lambda>u. Email (Profile u)) humans)" for e
    unfolding m'_def using that by (intro fold_fmupd_others) simp
  from run recorded own others show ?thesis
    unfolding Let_def humans_def [symmetric] m'_def [symmetric] by blast
qed

lemma Get_returns_human_emails_example:
  "Get (New demo_client 0 ''C1'' []) =
     Some (Returns (Inr [''a@x.com'', ''b@x.com'']),
           \<lparr>client = demo_client, remote = 3,
            calls = [page_request ''C1'' [], page_request ''C1'' ''p2'',
                     CallGetUsersInfo [''U1'', ''B1'', ''U2'']],
            conversationName = ''C1'',
            cache = Map (fmupd ''b@x.com'' ''U2'' (fmupd ''a@x.com'' ''U1'' fmempty))\<rparr>)"
proof -
  let ?c = "New demo_client 0 ''C1'' []"
  have pages: "serve_pages (client ?c) (conversationName ?c) [] (remote ?c)
      ([([''U1'', ''B1''], ''p2'')] @ [([''U2''], [])]) = Some 2"
    by (simp add: New_def demo_client_def)
  have cursors: "\<forall>q \<in> set [([''U1'', ''B1''], ''p2'')]. snd q \<noteq> []"
    by simp
  have info: "GetUsersInfo (client ?c) (concat (map fst [([''U1'', ''B1''], ''p2'')]) @ [''U2'']) 2
      = (Inr (map demo_user [''U1'', ''B1'', ''U2'']), 3)"
    by (simp add: New_def demo_client_def)
  have cache: "cache ?c = Map fmempty"
    by (simp add: New_def)
  note run = Get_returns_human_emails [OF pages cursors info cache, unfolded Let_def, THEN conjunct1]
  show ?thesis
    by (subst run) (simp add: New_def demo_user_def)
qed

text \<open>
  C6. If the remote fails a listing request, after any number of pages served, or
  fails the information request after the last page, \<^verbatim>\<open>Get\<close> returns no list but
  the wrapped error, and the cache is what it was before the call; it made no
  request after the failed one.
\<close>

theorem Get_error_keeps_cache:
  "(serve_pages (client c) (conversationName c) [] (remote c) pre = Some s1
      \<and> (\<forall>q \<in> set pre. snd q \<noteq> [])
      \<and> GetUsersInConversation (client c)
           \<lparr>ChannelID = conversationName c, Cursor = last ([] # map snd pre), Limit = 50\<rparr> s1
         = (Inl err, s2)
    \<longrightarrow> (\<exists>c'. Get c =
          Some (Returns (Inl (Errorf ''slack.conversation.get.getlistofslackusernames -> ''
                  (Errorf (''getusersinconversation('' @ conversationName c @ '') -> '') err))),
                c')
        \<and> cache c' = cache c
        \<and> calls c' = calls c @ map (page_request (conversationName c)) ([] # map snd pre)))
   \<and> (serve_pages (client c) (conversationName c) [] (remote c) (pre @ [(page, [])]) = Some s1
      \<and> (\<forall>q \<in> set pre. snd q \<noteq> [])
      \<and> GetUsersInfo (client c) (concat (map fst pre) @ page) s1 = (Inl err, s2)
    \<longrightarrow> (\<exists>c'. Get c =
          Some (Returns (Inl (Errorf ''slack.conversation.get.getusersinfo -> '' err)), c')
        \<and> cache c' = cache c
        \<and> calls c' = calls c @ map (page_request (conversationName c)) ([] # map snd pre)
            @ [CallGetUsersInfo (concat (map fst pre) @ page)]))"
proof (intro conjI impI; elim conjE)
  assume "serve_pages (client c) (conversationName c) [] (remote c) pre = Some s1"
    and "\<forall>q \<in> set pre. snd q \<noteq> []"
    and "GetUsersInConversation (client c)
           \<lparr>ChannelID = conversationName c, Cursor = last ([] # map snd pre), Limit = 50\<rparr> s1
         = (Inl err, s2)"
  from Get_page_error [OF this]
  show "\<exists>c'. Get c =
          Some (Returns (Inl (Errorf ''slack.conversation.get.getlistofslackusernames -> ''
                  (Errorf (''getusersinconversation('' @ conversationName c @ '') -> '') err))),
                c')
        \<and> cache c' = cache c
        \<and> calls c' = calls c @ map (page_request (conversationName c)) ([] # map snd pre)"
    by simp
next
  assume pages: "serve_pages (client c) (conversationName c) [] (remote c) (pre @ [(page, [])]) = Some s1"
    and cursors: "\<forall>q \<in> set pre. snd q \<noteq> []"
    and info: "GetUsersInfo (client c) (concat (map fst pre) @ page) s1 = (Inl err, s2)"
  from Get_pages_served [OF pages cursors] info
  show "\<exists>c'. Get c =
          Some (Returns (Inl (Errorf ''slack.conversation.get.getusersinfo -> '' err)), c')
        \<and> cache c' = cache c
        \<and> calls c' = calls c @ map (page_request (conversationName c)) ([] # map snd pre)
            @ [CallGetUsersInfo (concat (map fst pre) @ page)]"
    by simp
qed

theorem Get_error_keeps_cache_witness:
  "(\<exists>c'. Get ((New demo_client 0 ''down'' [])\<lparr>cache := Map (fmupd ''z@x.com'' ''U0'' fmempty)\<rparr>) =
          Some (Returns (Inl (Errorf ''slack.conversation.get.getlistofslackusernames -> ''
                  (Errorf ''getusersinconversation(down) -> '' (ClientError ''invalid_cursor'')))),
                c')
        \<and> cache c' = Map (fmupd ''z@x.com'' ''U0'' fmempty)
        \<and> calls c' = [page_request ''down'' [], page_request ''down'' ''p2''])
   \<and> (\<exists>c'. Get ((New demo_client 5 ''C1'' [])\<lparr>cache := Map (fmupd ''z@x.com'' ''U0'' fmempty)\<rparr>) =
          Some (Returns (Inl (Errorf ''slack.conversation.get.getusersinfo -> ''
                  (ClientError ''ratelimited''))), c')
        \<and> cache c' = Map (fmupd ''z@x.com'' ''U0'' fmempty)
        \<and> calls c' = [page_request ''C1'' [], page_request ''C1'' ''p2'',
                       CallGetUsersInfo [''U1'', ''B1'', ''U2'']])"
proof -
  let ?d = "(New demo_client 0 ''down'' [])\<lparr>cache := Map (fmupd ''z@x.com'' ''U0'' fmempty)\<rparr>"
  let ?l = "(New demo_client 5 ''C1'' [])\<lparr>cache := Map (fmupd ''z@x.com'' ''U0'' fmempty)\<rparr>"
  let ?pre = "[([''U1'', ''B1''], ''p2'')]"
  have d: "serve_pages (client ?d) (conversationName ?d) [] (remote ?d) ?pre = Some 1
      \<and> (\<forall>q \<in> set ?pre. snd q \<noteq> [])
      \<and> GetUsersInConversation (client ?d)
           \<lparr>ChannelID = conversationName ?d, Cursor = last ([] # map snd ?pre), Limit = 50\<rparr> 1
         = (Inl (ClientError ''invalid_cursor''), 2)"
    by (simp add: New_def demo_client_def)
  have l: "serve_pages (client ?l) (conversationName ?l) [] (remote ?l) (?pre @ [([''U2''], [])])
        = Some 7
      \<and> (\<forall>q \<in> set ?pre. snd q \<noteq> [])
      \<and> GetUsersInfo (client ?l) (concat (map fst ?pre) @ [''U2'']) 7
         = (Inl (ClientError ''ratelimited''), 8)"
    by (simp add: New_def demo_client_def)
  from Get_error_keeps_cache [of ?d ?pre 1 "ClientError ''invalid_cursor''" 2, THEN conjunct1, rule_format, OF d]
    Get_error_keeps_cache [of ?l ?pre 7 "ClientError ''ratelimited''" 8 "[''U2'']", THEN conjunct2, rule_format, OF l]
  show ?thesis
    by (simp add: New_def)
qed

subsection \<open>Add\<close>

lemma resolve_emails_length:
  "resolve_emails cl s emails = Some (users, s') \<Longrightarrow> length users = length emails"
  by (induction emails arbitrary: s users) (auto split: prod.splits sum.splits option.splits)

lemma Add_loop_resolved:
  assumes "resolve_emails (client c) (remote c) emails = Some (users, s1)"
    and "cache c = Map m"
    and "index + length emails \<le> length slackIds"
  shows "Add_loop c emails index slackIds =
    (Returns (Inr (take index slackIds @ map ID users @ drop (index + length emails) slackIds)),
     c\<lparr>remote := s1,
       calls := calls c @ map CallGetUserByEmail emails,
       cache := Map (fold (\<lambda>(email, user). fmupd email (ID user)) (zip emails users) m)\<rparr>)"
  using assms
proof (induction emails arbitrary: c users index slackIds m)
  case Nil
  then have "users = []" "s1 = remote c" "Map m = cache c" by simp_all
  then show ?case by simp
next
  case (Cons email emails)
  from Cons.prems(1) obtain user s' rest where
    ans: "GetUserByEmail (client c) email (remote c) = (Inr user, s')"
    and rest: "resolve_emails (client c) s' emails = Some (rest, s1)"
    and users: "users = user # rest"
    by (auto split: prod.splits sum.splits option.splits)
  let ?c1 = "c\<lparr>remote := s', calls := calls c @ [CallGetUserByEmail email],
               cache := Map (fmupd email (ID user) m)\<rparr>"
  have step: "Add_loop c (email # emails) index slackIds =
      Add_loop ?c1 emails (Suc index) (slackIds[index := ID user])"
    by (simp add: call_GetUserByEmail_def ans Cons.prems(2))
  have "Add_loop ?c1 emails (Suc index) (slackIds[index := ID user]) =
    (Returns (Inr (take (Suc index) (slackIds[index := ID user]) @ map ID rest
        @ drop (Suc index + length emails) (slackIds[index := ID user]))),
     ?c1\<lparr>remote := s1,
       calls := calls ?c1 @ map CallGetUserByEmail emails,
       cache := Map (fold (\<lambda>(email, user). fmupd email (ID user)) (zip emails rest)
                      (fmupd email (ID user) m))\<rparr>)"
    by (rule Cons.IH) (use rest Cons.prems(3) in simp_all)
  moreover have "take (Suc index) (slackIds[index := ID user]) = take index slackIds @ [ID user]"
    using Cons.prems(3) by (simp add: take_Suc_conv_app_nth)
  moreover have "drop (Suc index + length emails) (slackIds[index := ID user])
      = drop (index + length (email # emails)) slackIds"
    by simp
  ultimately show ?case
    using step users by simp
qed

lemma Add_loop_resolution_fails:
  assumes "resolve_emails (client c) (remote c) pre = Some (users, s1)"
    and "GetUserByEmail (client c) email s1 = (Inl err, s2)"
    and "cache c = Map m"
  shows "Add_loop c (pre @ email # post) index slackIds =
    (Returns (Inl (Errorf (''slack.conversation.add.getuserbyemail('' @ email @ '') -> '') err)),
     c\<lparr>remote := s2,
       calls := calls c @ map CallGetUserByEmail (pre @ [email]),
       cache := Map (fold (\<lambda>(email, user). fmupd email (ID user)) (zip pre users) m)\<rparr>)"
  using assms
proof (induction pre arbitrary: c users index slackIds m)
  case Nil
  then have "users = []" "s1 = remote c" "Map m = cache c" by simp_all
  with Nil.prems(2) show ?case by (simp add: call_GetUserByEmail_def)
next
  case (Cons e pre)
  from Cons.prems(1) obtain user s' rest where
    ans: "GetUserByEmail (client c) e (remote c) = (Inr user, s')"
    and rest: "resolve_emails (client c) s' pre = Some (rest, s1)"
    and users: "users = user # rest"
    by (auto split: prod.splits sum.splits option.splits)
  let ?c1 = "c\<lparr>remote := s', calls := calls c @ [CallGetUserByEmail e],
               cache := Map (fmupd e (ID user) m)\<rparr>"
  have step: "Add_loop c ((e # pre) @ email # post) index slackIds =
      Add_loop ?c1 (pre @ email # post) (Suc index) (slackIds[index := ID user])"
    by (simp add: call_GetUserByEmail_def ans Cons.prems(3))
  have "Add_loop ?c1 (pre @ email # post) (Suc index) (slackIds[index := ID user]) =
    (Returns (Inl (Errorf (''slack.conversation.add.getuserbyemail('' @ email @ '') -> '') err)),
     ?c1\<lparr>remote := s2,
       calls := calls ?c1 @ map CallGetUserByEmail (pre @ [email]),
       cache := Map (fold (\<lambda>(email, user). fmupd email (ID user)) (zip pre rest)
                      (fmupd e (ID user) m))\<rparr>)"
    by (rule Cons.IH) (use rest Cons.prems(2) in simp_all)
  with step users show ?case by simp
qed

lemma Add_loop_NilMap:
  assumes "GetUserByEmail (client c) email (remote c) = (Inr user, s1)"
    and "cache c = NilMap"
  shows "Add_loop c (email # rest) index slackIds =
    (Panics nil_map_panic, c\<lparr>remote := s1, calls := calls c @ [CallGetUserByEmail email]\<rparr>)"
  using assms by (simp add: call_GetUserByEmail_def)

lemma Add_resolved:
  assumes "resolve_emails (client c) (remote c) emails = Some (users, s1)"
    and "cache c = Map m"
  shows "Add c emails =
    (case InviteUsersToConversation (client c) (conversationName c) (map ID users) s1 of
       (Some err, s2) \<Rightarrow>
         (Returns (Some (Errorf (''slack.conversation.add.inviteuserstoconversation(''
                           @ conversationName c @ '', ...) -> '') err)),
          c\<lparr>remote := s2,
            calls := calls c @ map CallGetUserByEmail emails
              @ [CallInviteUsersToConversation (conversationName c) (map ID users)],
            cache := NilMap\<rparr>)
     | (None, s2) \<Rightarrow>
         (Returns None,
          c\<lparr>remote := s2,
            calls := calls c @ map CallGetUserByEmail emails
              @ [CallInviteUsersToConversation (conversationName c) (map ID users)],
            cache := Map (fold (\<lambda>(email, user). fmupd email (ID user)) (zip emails users) m)\<rparr>))"
proof -
  have "Add_loop c emails 0 (replicate (length emails) []) =
    (Returns (Inr (map ID users)),
     c\<lparr>remote := s1,
       calls := calls c @ map CallGetUserByEmail emails,
       cache := Map (fold (\<lambda>(email, user). fmupd email (ID user)) (zip emails users) m)\<rparr>)"
    by (subst Add_loop_resolved [OF assms]) simp_all
  then show ?thesis
    by (simp add: Add_def call_InviteUsersToConversation_def split: prod.splits option.splits)
qed

lemma fold_fmupd_pairs_dom:
  "fmdom' (fold (\<lambda>(email, user). fmupd email (ID user)) ps m) = fmdom' m \<union> fst ` set ps"
  by (induction ps arbitrary: m) auto

lemma Add_rejected:
  assumes "resolve_emails (client c) (remote c) pre = Some (users, s1)"
    and "GetUserByEmail (client c) email s1 = (Inl err, s2)"
    and "cache c \<noteq> NilMap \<or> pre = []"
  shows "\<exists>c'. Add c (pre @ email # post) =
      (Returns (Some (Errorf (''slack.conversation.add.getuserbyemail('' @ email @ '') -> '')
                        err)), c')
    \<and> remote c' = s2
    \<and> calls c' = calls c @ map CallGetUserByEmail (pre @ [email])"
proof (cases "pre = []")
  case True
  with assms(1) have "s1 = remote c" by simp
  with assms(2) True show ?thesis
    by (simp add: Add_def call_GetUserByEmail_def)
next
  case False
  with assms(3) obtain m where "cache c = Map m"
    by (cases "cache c") auto
  from Add_loop_resolution_fails [OF assms(1,2) this] show ?thesis
    by (simp add: Add_def)
qed

text \<open>
  C2. Whatever the list of emails: if the remote resolves every one of them and
  then refuses the batched invitation, \<^verbatim>\<open>Add\<close> (called with a cache that is a map)
  returns that error wrapped, and the cache it leaves has length 0 and no entry
  for any email, although every email of the list had an entry when the loop of
  resolutions ended, just before the invitation.
\<close>

theorem Add_invite_failure_empties_cache:
  assumes "resolve_emails (client c) (remote c) emails = Some (users, s1)"
    and "InviteUsersToConversation (client c) (conversationName c) (map ID users) s1
         = (Some err, s2)"
    and "cache c = Map m"
  shows "Add c emails =
      (Returns (Some (Errorf (''slack.conversation.add.inviteuserstoconversation(''
                        @ conversationName c @ '', ...) -> '') err)),
       c\<lparr>remote := s2,
         calls := calls c @ map CallGetUserByEmail emails
           @ [CallInviteUsersToConversation (conversationName c) (map ID users)],
         cache := NilMap\<rparr>)
    \<and> map_len (cache (snd (Add c emails))) = 0
    \<and> (\<forall>email. map_lookup (cache (snd (Add c emails))) email = None)
    \<and> (\<forall>email \<in> set emails.
         map_lookup (cache (snd (Add_loop c emails 0 (replicate (length emails) [])))) email
           \<noteq> None)"
proof -
  have run: "Add c emails =
      (Returns (Some (Errorf (''slack.conversation.add.inviteuserstoconversation(''
                        @ conversationName c @ '', ...) -> '') err)),
       c\<lparr>remote := s2,
         calls := calls c @ map CallGetUserByEmail emails
           @ [CallInviteUsersToConversation (conversationName c) (map ID users)],
         cache := NilMap\<rparr>)"
    by (simp add: Add_resolved [OF assms(1,3)] assms(2))
  have "length users = length emails"
    using assms(1) by (rule resolve_emails_length)
  then have "fst ` set (zip emails users) = set emails"
    by (metis list.set_map map_fst_zip)
  then have "\<forall>email \<in> set emails.
      email \<in> fmdom' (fold (\<lambda>(email, user). fmupd email (ID user)) (zip emails users) m)"
    by (simp add: fold_fmupd_pairs_dom)
  then have before: "\<forall>email \<in> set emails.
      map_lookup (cache (snd (Add_loop c emails 0 (replicate (length emails) [])))) email
        \<noteq> None"
    by (subst Add_loop_resolved [OF assms(1,3)]) (auto simp: fmdom'_alt_def fmlookup_dom_iff)
  from run before show ?thesis
    by simp
qed

text \<open>
  C5. If the remote resolves the emails \<open>pre\<close> and fails to resolve the next one,
  \<^verbatim>\<open>Add\<close> returns that error wrapped, having asked the client for these emails only:
  no invitation was sent and the emails after the failing one were not looked up.
  When all emails resolve, the calls of \<^verbatim>\<open>Add\<close> are the lookups, in order, followed
  by one invitation of all the identifiers.
\<close>

theorem Add_resolution_failure_no_invite:
  "(resolve_emails (client c) (remote c) pre = Some (users, s1)
      \<and> GetUserByEmail (client c) email s1 = (Inl err, s2)
      \<and> (cache c \<noteq> NilMap \<or> pre = [])
    \<longrightarrow> (\<exists>c'. Add c (pre @ email # post) =
            (Returns (Some (Errorf
               (''slack.conversation.add.getuserbyemail('' @ email @ '') -> '') err)), c')
          \<and> remote c' = s2
          \<and> calls c' = calls c @ map CallGetUserByEmail (pre @ [email])))
   \<and> (resolve_emails (client c) (remote c) emails = Some (users, s1)
      \<and> cache c \<noteq> NilMap
    \<longrightarrow> calls (snd (Add c emails)) =
          calls c @ map CallGetUserByEmail emails
            @ [CallInviteUsersToConversation (conversationName c) (map ID users)])"
proof (intro conjI impI; elim conjE)
  assume "resolve_emails (client c) (remote c) pre = Some (users, s1)"
    and "GetUserByEmail (client c) email s1 = (Inl err, s2)"
    and "cache c \<noteq> NilMap \<or> pre = []"
  then show "\<exists>c'. Add c (pre @ email # post) =
            (Returns (Some (Errorf
               (''slack.conversation.add.getuserbyemail('' @ email @ '') -> '') err)), c')
          \<and> remote c' = s2
          \<and> calls c' = calls c @ map CallGetUserByEmail (pre @ [email])"
    by (rule Add_rejected)
next
  assume resolved: "resolve_emails (client c) (remote c) emails = Some (users, s1)"
    and "cache c \<noteq> NilMap"
  then obtain m where "cache c = Map m"
    by (cases "cache c") auto
  from Add_resolved [OF resolved this]
  show "calls (snd (Add c emails)) =
          calls c @ map CallGetUserByEmail emails
            @ [CallInviteUsersToConversation (conversationName c) (map ID users)]"
    by (simp split: prod.splits option.splits)
qed

theorem Add_invite_failure_empties_cache_witness:
  "Add (New demo_client 0 ''C1'' []) [''a@x.com'', ''b@x.com''] =
     (Returns (Some (Errorf ''slack.conversation.add.inviteuserstoconversation(C1, ...) -> ''
                       (ClientError ''cant_invite''))),
      \<lparr>client = demo_client, remote = 3,
       calls = [CallGetUserByEmail ''a@x.com'', CallGetUserByEmail ''b@x.com'',
                CallInviteUsersToConversation ''C1'' [''U1'', ''U2'']],
       conversationName = ''C1'', cache = NilMap\<rparr>)
   \<and> map_lookup (cache (snd (Add_loop (New demo_client 0 ''C1'' []) [''a@x.com'', ''b@x.com'']
                                 0 (replicate (length [''a@x.com'', ''b@x.com'']) []))))
         ''a@x.com'' \<noteq> None"
proof -
  let ?c = "New demo_client 0 ''C1'' []"
  have resolved: "resolve_emails (client ?c) (remote ?c) [''a@x.com'', ''b@x.com'']
      = Some ([demo_user ''U1'', demo_user ''U2''], 2)"
    by (simp add: New_def demo_client_def)
  have invite: "InviteUsersToConversation (client ?c) (conversationName ?c)
      (map ID [demo_user ''U1'', demo_user ''U2'']) 2 = (Some (ClientError ''cant_invite''), 3)"
    by (simp add: New_def demo_client_def demo_user_def)
  have cache: "cache ?c = Map fmempty"
    by (simp add: New_def)
  note T = Add_invite_failure_empties_cache [OF resolved invite cache]
  from T [THEN conjunct1] T [THEN conjunct2, THEN conjunct2, THEN conjunct2]
  show ?thesis
    by (simp add: New_def demo_user_def)
qed

theorem Add_resolution_failure_no_invite_witness:
  "(\<exists>c'. Add (New demo_client 0 ''C1'' []) [''a@x.com'', ''q@x.com'', ''b@x.com''] =
       (Returns (Some (Errorf ''slack.conversation.add.getuserbyemail(q@x.com) -> ''
                         (ClientError ''users_not_found''))), c')
     \<and> remote c' = 2
     \<and> calls c' = [CallGetUserByEmail ''a@x.com'', CallGetUserByEmail ''q@x.com''])
   \<and> calls (snd (Add (New demo_client 0 ''C1'' []) [''a@x.com''])) =
       [CallGetUserByEmail ''a@x.com'', CallInviteUsersToConversation ''C1'' [''U1'']]"
proof -
  let ?c = "New demo_client 0 ''C1'' []"
  have rejected: "resolve_emails (client ?c) (remote ?c) [''a@x.com'']
        = Some ([demo_user ''U1''], 1)
      \<and> GetUserByEmail (client ?c) ''q@x.com'' 1 = (Inl (ClientError ''users_not_found''), 2)
      \<and> (cache ?c \<noteq> NilMap \<or> [''a@x.com''] = [])"
    by (simp add: New_def demo_client_def)
  have resolved: "resolve_emails (client ?c) (remote ?c) [''a@x.com'']
        = Some ([demo_user ''U1''], 1)
      \<and> cache ?c \<noteq> NilMap"
    by (simp add: New_def demo_client_def)
  from Add_resolution_failure_no_invite
         [of ?c "[''a@x.com'']" "[demo_user ''U1'']" 1 "''q@x.com''"
             "ClientError ''users_not_found''" 2 "[''b@x.com'']",
          THEN conjunct1, rule_format, OF rejected]
    Add_resolution_failure_no_invite
         [of ?c _ "[demo_user ''U1'']" 1 _ _ _ _ "[''a@x.com'']",
          THEN conjunct2, rule_format, OF resolved]
  show ?thesis
    by (simp add: New_def demo_user_def)
qed

subsection \<open>Remove\<close>

lemma map_lookup_delete:
  "map_lookup (map_delete m k) e = (if e = k then None else map_lookup m e)"
  by (cases m) simp_all

lemma map_lookup_deleted:
  "map_lookup (foldl map_delete m emails) e = (if e \<in> set emails then None else map_lookup m e)"
  by (induction emails arbitrary: m) (simp_all add: map_lookup_delete)

lemma kick_targets_nth:
  "i < length emails \<Longrightarrow>
   kick_targets m emails ! i = map_index (foldl map_delete m (take i emails)) (emails ! i)"
proof (induction emails arbitrary: m i)
  case Nil
  then show ?case by simp
next
  case (Cons email emails)
  then show ?case by (cases i) simp_all
qed

lemma Remove_loop_kicked:
  assumes "kick_all (client c) (conversationName c) (remote c) (kick_targets (cache c) emails)
      = Some s1"
  shows "Remove_loop c emails =
    (None,
     c\<lparr>remote := s1,
       calls := calls c
         @ map (CallKickUserFromConversation (conversationName c)) (kick_targets (cache c) emails),
       cache := foldl map_delete (cache c) emails\<rparr>)"
  using assms
proof (induction emails arbitrary: c)
  case Nil
  then have "s1 = remote c" by simp
  then show ?case by simp
next
  case (Cons email emails)
  from Cons.prems obtain s' where
    ans: "KickUserFromConversation (client c) (conversationName c) (map_index (cache c) email)
        (remote c) = (None, s')"
    and rest: "kick_all (client c) (conversationName c) s'
        (kick_targets (map_delete (cache c) email) emails) = Some s1"
    by (auto split: prod.splits option.splits)
  let ?c1 = "c\<lparr>remote := s',
      calls := calls c
        @ [CallKickUserFromConversation (conversationName c) (map_index (cache c) email)],
      cache := map_delete (cache c) email\<rparr>"
  have step: "Remove_loop c (email # emails) = Remove_loop ?c1 emails"
    by (simp add: call_KickUserFromConversation_def ans)
  have "Remove_loop ?c1 emails =
    (None,
     ?c1\<lparr>remote := s1,
       calls := calls ?c1
         @ map (CallKickUserFromConversation (conversationName ?c1))
             (kick_targets (cache ?c1) emails),
       cache := foldl map_delete (cache ?c1) emails\<rparr>)"
    by (rule Cons.IH) (use rest in simp)
  with step show ?case by simp
qed

lemma Remove_loop_fails:
  assumes "kick_all (client c) (conversationName c) (remote c) (kick_targets (cache c) pre)
      = Some s1"
    and "KickUserFromConversation (client c) (conversationName c)
           (map_index (foldl map_delete (cache c) pre) email) s1 = (Some err, s2)"
  shows "Remove_loop c (pre @ email # post) =
    (Some (Errorf (''slack.conversation.remove.kickuserfromconversation(''
              @ conversationName c @ '', ''
              @ map_index (foldl map_delete (cache c) pre) email @ '') -> '') err),
     c\<lparr>remote := s2,
       calls := calls c
         @ map (CallKickUserFromConversation (conversationName c))
             (kick_targets (cache c) (pre @ [email])),
       cache := foldl map_delete (cache c) pre\<rparr>)"
  using assms
proof (induction pre arbitrary: c)
  case Nil
  then have "s1 = remote c" by simp
  with Nil.prems(2) show ?case
    by (simp add: call_KickUserFromConversation_def)
next
  case (Cons e pre)
  from Cons.prems(1) obtain s' where
    ans: "KickUserFromConversation (client c) (conversationName c) (map_index (cache c) e)
        (remote c) = (None, s')"
    and rest: "kick_all (client c) (conversationName c) s'
        (kick_targets (map_delete (cache c) e) pre) = Some s1"
    by (auto split: prod.splits option.splits)
  let ?c1 = "c\<lparr>remote := s',
      calls := calls c
        @ [CallKickUserFromConversation (conversationName c) (map_index (cache c) e)],
      cache := map_delete (cache c) e\<rparr>"
  have step: "Remove_loop c ((e # pre) @ email # post) = Remove_loop ?c1 (pre @ email # post)"
    by (simp add: call_KickUserFromConversation_def ans)
  have "Remove_loop ?c1 (pre @ email # post) =
    (Some (Errorf (''slack.conversation.remove.kickuserfromconversation(''
              @ conversationName ?c1 @ '', ''
              @ map_index (foldl map_delete (cache ?c1) pre) email @ '') -> '') err),
     ?c1\<lparr>remote := s2,
       calls := calls ?c1
         @ map (CallKickUserFromConversation (conversationName ?c1))
             (kick_targets (cache ?c1) (pre @ [email])),
       cache := foldl map_delete (cache ?c1) pre\<rparr>)"
    by (rule Cons.IH) (use rest Cons.prems(2) in simp_all)
  with step show ?case by simp
qed

text \<open>
  C4. \<^verbatim>\<open>Remove\<close>, called with a cache that has entries, kicks for the emails in the
  order of the list, and the identifier of each kick is read from the cache as the
  deletions for the emails before it have left it. If the remote accepts every
  kick, \<^verbatim>\<open>Remove\<close> returns \<^verbatim>\<open>nil\<close> and the entries of all the emails are gone. If
  it accepts the kicks for \<open>pre\<close> and refuses the next one, \<^verbatim>\<open>Remove\<close> returns
  that error wrapped, no kick is made for the emails after it, and the cache is
  the initial one without the entries of \<open>pre\<close>: nothing is rolled back, and
  every email that is not in \<open>pre\<close> (the refused one and the later ones, unless
  they also occur in \<open>pre\<close>) has the entry, or the absence of entry, it had.
\<close>

theorem Remove_in_order_until_failure:
  assumes "map_len (cache c) \<noteq> 0"
  shows
    "(kick_all (client c) (conversationName c) (remote c) (kick_targets (cache c) emails)
        = Some s1
      \<longrightarrow> Remove c emails =
          (None,
           c\<lparr>remote := s1,
             calls := calls c
               @ map (CallKickUserFromConversation (conversationName c))
                   (kick_targets (cache c) emails),
             cache := foldl map_delete (cache c) emails\<rparr>))
     \<and> (kick_all (client c) (conversationName c) (remote c) (kick_targets (cache c) pre)
          = Some s1
        \<and> KickUserFromConversation (client c) (conversationName c)
             (map_index (foldl map_delete (cache c) pre) email) s1 = (Some err, s2)
      \<longrightarrow> Remove c (pre @ email # post) =
          (Some (Errorf (''slack.conversation.remove.kickuserfromconversation(''
                   @ conversationName c @ '', ''
                   @ map_index (foldl map_delete (cache c) pre) email @ '') -> '') err),
           c\<lparr>remote := s2,
             calls := calls c
               @ map (CallKickUserFromConversation (conversationName c))
                   (kick_targets (cache c) (pre @ [email])),
             cache := foldl map_delete (cache c) pre\<rparr>))
     \<and> (\<forall>i < length emails.
          kick_targets (cache c) emails ! i =
            map_index (foldl map_delete (cache c) (take i emails)) (emails ! i))
     \<and> (\<forall>e. map_lookup (foldl map_delete (cache c) pre) e =
            (if e \<in> set pre then None else map_lookup (cache c) e))"
proof (intro conjI impI allI; (elim conjE)?)
  assume "kick_all (client c) (conversationName c) (remote c) (kick_targets (cache c) emails)
      = Some s1"
  from Remove_loop_kicked [OF this] assms
  show "Remove c emails =
          (None,
           c\<lparr>remote := s1,
             calls := calls c
               @ map (CallKickUserFromConversation (conversationName c))
                   (kick_targets (cache c) emails),
             cache := foldl map_delete (cache c) emails\<rparr>)"
    by (simp add: Remove_def)
next
  assume "kick_all (client c) (conversationName c) (remote c) (kick_targets (cache c) pre)
          = Some s1"
    and "KickUserFromConversation (client c) (conversationName c)
             (map_index (foldl map_delete (cache c) pre) email) s1 = (Some err, s2)"
  from Remove_loop_fails [OF this] assms
  show "Remove c (pre @ email # post) =
          (Some (Errorf (''slack.conversation.remove.kickuserfromconversation(''
                   @ conversationName c @ '', ''
                   @ map_index (foldl map_delete (cache c) pre) email @ '') -> '') err),
           c\<lparr>remote := s2,
             calls := calls c
               @ map (CallKickUserFromConversation (conversationName c))
                   (kick_targets (cache c) (pre @ [email])),
             cache := foldl map_delete (cache c) pre\<rparr>)"
    by (simp add: Remove_def)
next
  fix i
  assume "i < length emails"
  then show "kick_targets (cache c) emails ! i =
      map_index (foldl map_delete (cache c) (take i emails)) (emails ! i)"
    by (rule kick_targets_nth)
next
  fix e
  show "map_lookup (foldl map_delete (cache c) pre) e =
      (if e \<in> set pre then None else map_lookup (cache c) e)"
    by (rule map_lookup_deleted)
qed

theorem Remove_in_order_until_failure_witness:
  "Remove ((New demo_client 0 ''C1'' [])
             \<lparr>cache := Map (fmupd ''b@x.com'' ''U2'' (fmupd ''a@x.com'' ''U1'' fmempty))\<rparr>)
          [''a@x.com'', ''b@x.com''] =
     (Some (Errorf ''slack.conversation.remove.kickuserfromconversation(C1, U2) -> ''
              (ClientError ''cant_kick'')),
      \<lparr>client = demo_client, remote = 2,
       calls = [CallKickUserFromConversation ''C1'' ''U1'',
                CallKickUserFromConversation ''C1'' ''U2''],
       conversationName = ''C1'', cache = Map (fmupd ''b@x.com'' ''U2'' fmempty)\<rparr>)
   \<and> Remove ((New demo_client 0 ''C1'' [])
             \<lparr>cache := Map (fmupd ''b@x.com'' ''U2'' (fmupd ''a@x.com'' ''U1'' fmempty))\<rparr>)
          [''a@x.com''] =
     (None,
      \<lparr>client = demo_client, remote = 1,
       calls = [CallKickUserFromConversation ''C1'' ''U1''],
       conversationName = ''C1'', cache = Map (fmupd ''b@x.com'' ''U2'' fmempty)\<rparr>)"
proof -
  let ?c = "(New demo_client 0 ''C1'' [])
             \<lparr>cache := Map (fmupd ''b@x.com'' ''U2'' (fmupd ''a@x.com'' ''U1'' fmempty))\<rparr>"
  have nonempty: "map_len (cache ?c) \<noteq> 0"
    by (simp add: map_len_0_iff)
  have kicked: "kick_all (client ?c) (conversationName ?c) (remote ?c)
      (kick_targets (cache ?c) [''a@x.com'']) = Some 1"
    by (simp add: New_def demo_client_def map_index_def)
  have failed: "kick_all (client ?c) (conversationName ?c) (remote ?c)
        (kick_targets (cache ?c) [''a@x.com'']) = Some 1
      \<and> KickUserFromConversation (client ?c) (conversationName ?c)
          (map_index (foldl map_delete (cache ?c) [''a@x.com'']) ''b@x.com'') 1
        = (Some (ClientError ''cant_kick''), 2)"
    by (simp add: New_def demo_client_def map_index_def)
  note T = Remove_in_order_until_failure [OF nonempty]
  from T [of "[''a@x.com'']" 1, THEN conjunct1, rule_format, OF kicked]
    T [of _ 1 "[''a@x.com'']" "''b@x.com''" "ClientError ''cant_kick''" 2 "[]",
       THEN conjunct2, THEN conjunct1, rule_format, OF failed]
  show ?thesis
    by (simp add: New_def map_index_def fmdrop_fmupd)
qed

text \<open>
  C8. On an adapter just made by \<^verbatim>\<open>New\<close>, if the remote resolves \<open>email\<close> and
  accepts the invitation, \<^verbatim>\<open>Add\<close> of that one email returns \<^verbatim>\<open>nil\<close> and leaves the
  cache with the single entry from the email to the resolved identifier. \<^verbatim>\<open>Remove\<close>
  of the same email on that adapter, with no \<^verbatim>\<open>Get\<close> in between, is not stopped by
  the empty-cache check: it kicks the cached identifier once, returns \<^verbatim>\<open>nil\<close> and
  drops the entry if the remote accepts the kick, and otherwise returns the
  remote's error wrapped.
\<close>

theorem Add_then_Remove_without_Get:
  assumes "GetUserByEmail cl email s = (Inr user, s1)"
    and "InviteUsersToConversation cl channelName [ID user] s1 = (None, s2)"
  shows
    "let c1 = \<lparr>client = cl, remote = s2,
               calls = [CallGetUserByEmail email,
                        CallInviteUsersToConversation channelName [ID user]],
               conversationName = channelName,
               cache = Map (fmupd email (ID user) fmempty)\<rparr>
     in Add (New cl s channelName []) [email] = (Returns None, c1)
      \<and> map_lookup (cache c1) email = Some (ID user)
      \<and> Remove c1 [email] =
          (case KickUserFromConversation cl channelName (ID user) s2 of
             (None, s3) \<Rightarrow>
               (None,
                c1\<lparr>remote := s3,
                   calls := calls c1 @ [CallKickUserFromConversation channelName (ID user)],
                   cache := Map fmempty\<rparr>)
           | (Some err, s3) \<Rightarrow>
               (Some (Errorf (''slack.conversation.remove.kickuserfromconversation(''
                        @ channelName @ '', '' @ ID user @ '') -> '') err),
                c1\<lparr>remote := s3,
                   calls := calls c1 @ [CallKickUserFromConversation channelName (ID user)]\<rparr>))"
proof -
  have add: "Add (New cl s channelName []) [email] =
      (Returns None,
       \<lparr>client = cl, remote = s2,
        calls = [CallGetUserByEmail email, CallInviteUsersToConversation channelName [ID user]],
        conversationName = channelName,
        cache = Map (fmupd email (ID user) fmempty)\<rparr>)"
    by (simp add: Add_def New_def call_GetUserByEmail_def call_InviteUsersToConversation_def
        assms)
  have nonempty: "map_len (Map (fmupd email (ID user) fmempty)) \<noteq> 0"
    by (simp add: map_len_0_iff)
  show ?thesis
    unfolding Let_def
    by (intro conjI, rule add, simp)
      (simp add: Remove_def nonempty call_KickUserFromConversation_def map_index_def
        fmdrop_fmupd_same split: prod.splits option.splits)
qed

theorem Add_then_Remove_without_Get_witness:
  "Add (New demo_client 0 ''C1'' []) [''a@x.com''] =
     (Returns None,
      \<lparr>client = demo_client, remote = 2,
       calls = [CallGetUserByEmail ''a@x.com'', CallInviteUsersToConversation ''C1'' [''U1'']],
       conversationName = ''C1'', cache = Map (fmupd ''a@x.com'' ''U1'' fmempty)\<rparr>)
   \<and> Remove \<lparr>client = demo_client, remote = 2,
              calls = [CallGetUserByEmail ''a@x.com'',
                       CallInviteUsersToConversation ''C1'' [''U1'']],
              conversationName = ''C1'', cache = Map (fmupd ''a@x.com'' ''U1'' fmempty)\<rparr>
        [''a@x.com''] =
     (None,
      \<lparr>client = demo_client, remote = 3,
       calls = [CallGetUserByEmail ''a@x.com'', CallInviteUsersToConversation ''C1'' [''U1''],
                CallKickUserFromConversation ''C1'' ''U1''],
       conversationName = ''C1'', cache = Map fmempty\<rparr>)"
proof -
  have resolved: "GetUserByEmail demo_client ''a@x.com'' 0 = (Inr (demo_user ''U1''), 1)"
    by (simp add: demo_client_def)
  have invited: "InviteUsersToConversation demo_client ''C1'' [ID (demo_user ''U1'')] 1
      = (None, 2)"
    by (simp add: demo_client_def demo_user_def)
  have kick: "KickUserFromConversation demo_client ''C1'' ''U1'' 2 = (None, 3)"
    by (simp add: demo_client_def)
  from Add_then_Remove_without_Get [OF resolved invited, unfolded Let_def] kick
  show ?thesis
    by (simp add: demo_user_def)
qed

subsection \<open>The nil cache\<close>

lemma loop_keeps_cache:
  fixes c :: "'s Conversation"
  assumes "getListOfSlackUsernames_loop c cursor users = Some (r, c')"
  shows "cache c' = cache c"
proof -
  define P :: "'s Conversation \<Rightarrow> string \<Rightarrow> string list
      \<Rightarrow> (error + string list) \<times> 's Conversation \<Rightarrow> bool"
    where "P = (\<lambda>c cursor users y. cache (snd y) = cache c)"
  have "P c cursor users (r, c')"
  proof (rule getListOfSlackUsernames_loop.raw_induct [where P = P, OF _ assms])
    fix f :: "'s Conversation \<Rightarrow> string \<Rightarrow> string list
        \<Rightarrow> ((error + string list) \<times> 's Conversation) option"
    fix c cursor users y
    assume IH: "\<And>c cursor users y. f c cursor users = Some y \<Longrightarrow> P c cursor users y"
    assume body: "(case call_GetUsersInConversation c
             \<lparr>ChannelID = conversationName c, Cursor = cursor, Limit = 50\<rparr> of
        (Inl err, c') \<Rightarrow>
          Some (Inl (Errorf (''getusersinconversation('' @ conversationName c @ '') -> '') err),
                c')
      | (Inr (pageOfUsers, cursor'), c') \<Rightarrow>
          if cursor' = [] then Some (Inr (users @ pageOfUsers), c')
          else f c' cursor' (users @ pageOfUsers)) = Some y"
    obtain a c1 where call: "call_GetUsersInConversation c
        \<lparr>ChannelID = conversationName c, Cursor = cursor, Limit = 50\<rparr> = (a, c1)"
      by (cases "call_GetUsersInConversation c
        \<lparr>ChannelID = conversationName c, Cursor = cursor, Limit = 50\<rparr>")
    then have c1: "cache c1 = cache c"
      by (auto simp: call_GetUsersInConversation_def split: prod.splits)
    show "P c cursor users y"
    proof (cases a)
      case (Inl err)
      with body call c1 show ?thesis by (auto simp: P_def)
    next
      case (Inr answer)
      obtain page nxt where answer: "answer = (page, nxt)" by (cases answer)
      show ?thesis
      proof (cases "nxt = []")
        case True
        with body call c1 Inr answer show ?thesis by (auto simp: P_def)
      next
        case False
        with body call Inr answer have "f c1 nxt (users @ page) = Some y" by simp
        from IH [OF this] c1 show ?thesis by (simp add: P_def)
      qed
    qed
  qed
  then show ?thesis by (simp add: P_def)
qed

lemma Get_NilMap:
  assumes "cache c = NilMap" and "Get c = Some (r, c')"
  shows "cache c' = NilMap"
proof -
  from assms(2) obtain a c1 where
    loop: "getListOfSlackUsernames_loop c [] [] = Some (a, c1)"
    by (auto simp: Get_def getListOfSlackUsernames_def split: option.splits)
  from loop_keeps_cache [OF loop] assms(1) have c1: "cache c1 = NilMap" by simp
  show ?thesis
  proof (cases a)
    case (Inl err)
    with assms(2) loop c1 show ?thesis
      by (auto simp: Get_def getListOfSlackUsernames_def)
  next
    case (Inr slackUsers)
    obtain b c2 where info: "call_GetUsersInfo c1 slackUsers = (b, c2)"
      by (cases "call_GetUsersInfo c1 slackUsers")
    then have c2: "cache c2 = NilMap"
      using c1 by (auto simp: call_GetUsersInfo_def split: prod.splits)
    show ?thesis
    proof (cases b)
      case (Inl err)
      with assms(2) loop Inr info c2 show ?thesis
        by (auto simp: Get_def getListOfSlackUsernames_def)
    next
      case (Inr found)
      with assms(2) loop \<open>a = Inr slackUsers\<close> info
      have "Get_loop c2 found [] = (r, c')"
        by (auto simp: Get_def getListOfSlackUsernames_def)
      with c2 show ?thesis
        by (auto simp: Get_loop_NilMap split: if_splits)
    qed
  qed
qed

lemma Add_loop_keeps_NilMap:
  assumes "cache c = NilMap"
  shows "cache (snd (Add_loop c emails index slackIds)) = NilMap"
  using assms
  by (cases emails)
    (auto simp: call_GetUserByEmail_def split: prod.splits sum.splits)

lemma Add_keeps_NilMap:
  assumes "cache c = NilMap"
  shows "cache (snd (Add c emails)) = NilMap"
proof -
  obtain a c1 where loop: "Add_loop c emails 0 (replicate (length emails) []) = (a, c1)"
    by (cases "Add_loop c emails 0 (replicate (length emails) [])")
  with Add_loop_keeps_NilMap [OF assms, of emails 0 "replicate (length emails) []"]
  have c1: "cache c1 = NilMap" by simp
  show ?thesis
    using loop c1
    by (auto simp: Add_def call_InviteUsersToConversation_def
        split: outcome.splits sum.splits prod.splits option.splits)
qed

lemma Remove_keeps_NilMap:
  assumes "cache c = NilMap"
  shows "cache (snd (Remove c emails)) = NilMap"
  using assms by (simp add: Remove_def)

lemma Add_invite_refused_NilMap:
  assumes "resolve_emails (client c) (remote c) emails = Some (users, s1)"
    and "InviteUsersToConversation (client c) (conversationName c) (map ID users) s1
         = (Some err, s2)"
  shows "cache (snd (Add c emails)) = NilMap"
proof (cases "cache c")
  case NilMap
  then show ?thesis by (rule Add_keeps_NilMap)
next
  case (Map m)
  from Add_resolved [OF assms(1) Map] assms(2) show ?thesis by simp
qed

lemma Get_panics_NilMap:
  assumes "cache c = NilMap"
    and "serve_pages (client c) (conversationName c) [] (remote c) (pre @ [(page, [])])
        = Some s1"
    and "\<forall>q \<in> set pre. snd q \<noteq> []"
    and "GetUsersInfo (client c) (concat (map fst pre) @ page) s1 = (Inr found, s2)"
    and "\<exists>u \<in> set found. \<not> IsBot u"
  shows "Get c =
    Some (Panics nil_map_panic,
          c\<lparr>remote := s2,
            calls := calls c @ map (page_request (conversationName c)) ([] # map snd pre)
              @ [CallGetUsersInfo (concat (map fst pre) @ page)]\<rparr>)"
  by (subst Get_pages_served [OF assms(2,3)], simp only: assms(4) prod.case sum.case,
      subst Get_loop_NilMap) (use assms(1,5) in simp_all)

text \<open>
  C1. The claim is that \<^verbatim>\<open>Get\<close> returns the emails of the non-bot users, and
  records them, for every listing that ends with an empty cursor. It does so on
  an adapter whose cache is a map (\<open>Get_returns_human_emails\<close>), but not on the
  adapter that an \<^verbatim>\<open>Add\<close> with a refused invitation leaves behind: that \<^verbatim>\<open>Add\<close>
  returns its error and sets the cache to \<^verbatim>\<open>nil\<close> (line 142) where \<^verbatim>\<open>New\<close> makes an
  empty map (line 50). On it, the remote serves the listing in two pages, the
  second with an empty cursor, and resolves the three members, two of them
  people; \<^verbatim>\<open>Get\<close> makes the three requests and then panics at its first write to
  the cache (line 114): it returns no email and records none.
\<close>

theorem Get_after_refused_invite_panics:
  "fst (Add (New demo_client 0 ''C1'' []) [''a@x.com'', ''b@x.com'']) =
     Returns (Some (Errorf ''slack.conversation.add.inviteuserstoconversation(C1, ...) -> ''
                      (ClientError ''cant_invite'')))
   \<and> serve_pages demo_client ''C1'' [] 3 ([([''U1'', ''B1''], ''p2'')] @ [([''U2''], [])])
       = Some 5
   \<and> GetUsersInfo demo_client [''U1'', ''B1'', ''U2''] 5
       = (Inr [\<lparr>ID = ''U1'', IsBot = False, Profile = \<lparr>Email = ''a@x.com''\<rparr>\<rparr>,
               \<lparr>ID = ''B1'', IsBot = True, Profile = \<lparr>Email = ''bot@x.com''\<rparr>\<rparr>,
               \<lparr>ID = ''U2'', IsBot = False, Profile = \<lparr>Email = ''b@x.com''\<rparr>\<rparr>], 6)
   \<and> Get (snd (Add (New demo_client 0 ''C1'' []) [''a@x.com'', ''b@x.com''])) =
       Some (Panics nil_map_panic,
             \<lparr>client = demo_client, remote = 6,
              calls = [CallGetUserByEmail ''a@x.com'', CallGetUserByEmail ''b@x.com'',
                       CallInviteUsersToConversation ''C1'' [''U1'', ''U2''],
                       page_request ''C1'' [], page_request ''C1'' ''p2'',
                       CallGetUsersInfo [''U1'', ''B1'', ''U2'']],
              conversationName = ''C1'', cache = NilMap\<rparr>)"
proof -
  let ?a = "Add (New demo_client 0 ''C1'' []) [''a@x.com'', ''b@x.com'']"
  let ?n = "\<lparr>client = demo_client, remote = 3::nat,
       calls = [CallGetUserByEmail ''a@x.com'', CallGetUserByEmail ''b@x.com'',
                CallInviteUsersToConversation ''C1'' [''U1'', ''U2'']],
       conversationName = ''C1'', cache = NilMap\<rparr>"
  have add: "?a =
      (Returns (Some (Errorf ''slack.conversation.add.inviteuserstoconversation(C1, ...) -> ''
                        (ClientError ''cant_invite''))), ?n)"
    by (simp add: Add_def New_def demo_client_def demo_user_def call_GetUserByEmail_def
        call_InviteUsersToConversation_def)
  have pages: "serve_pages (client ?n) (conversationName ?n) [] (remote ?n)
      ([([''U1'', ''B1''], ''p2'')] @ [([''U2''], [])]) = Some 5"
    by (simp add: demo_client_def)
  have cursors: "\<forall>q \<in> set [([''U1'', ''B1''], ''p2'')]. snd q \<noteq> []"
    by simp
  have info: "GetUsersInfo (client ?n) (concat (map fst [([''U1'', ''B1''], ''p2'')]) @ [''U2'']) 5
      = (Inr (map demo_user [''U1'', ''B1'', ''U2'']), 6)"
    by (simp add: demo_client_def)
  have person: "\<exists>u \<in> set (map demo_user [''U1'', ''B1'', ''U2'']). \<not> IsBot u"
    by (simp add: demo_user_def)
  have nil: "cache ?n = NilMap"
    by simp
  have "Get ?n =
      Some (Panics nil_map_panic,
            ?n\<lparr>remote := 6,
              calls := calls ?n
                @ map (page_request (conversationName ?n))
                    ([] # map snd [([''U1'', ''B1''], ''p2'')])
                @ [CallGetUsersInfo (concat (map fst [([''U1'', ''B1''], ''p2'')]) @ [''U2''])]\<rparr>)"
    using nil pages cursors info person by (rule Get_panics_NilMap)
  then have get: "Get (snd ?a) =
      Some (Panics nil_map_panic,
            \<lparr>client = demo_client, remote = 6,
             calls = [CallGetUserByEmail ''a@x.com'', CallGetUserByEmail ''b@x.com'',
                      CallInviteUsersToConversation ''C1'' [''U1'', ''U2''],
                      page_request ''C1'' [], page_request ''C1'' ''p2'',
                      CallGetUsersInfo [''U1'', ''B1'', ''U2'']],
             conversationName = ''C1'', cache = NilMap\<rparr>)"
    unfolding add by simp
  have fst: "fst ?a =
      Returns (Some (Errorf ''slack.conversation.add.inviteuserstoconversation(C1, ...) -> ''
                       (ClientError ''cant_invite'')))"
    unfolding add by simp
  have pages': "serve_pages demo_client ''C1'' [] 3
      ([([''U1'', ''B1''], ''p2'')] @ [([''U2''], [])]) = Some 5"
    using pages by simp
  have info': "GetUsersInfo demo_client [''U1'', ''B1'', ''U2''] 5
       = (Inr [\<lparr>ID = ''U1'', IsBot = False, Profile = \<lparr>Email = ''a@x.com''\<rparr>\<rparr>,
               \<lparr>ID = ''B1'', IsBot = True, Profile = \<lparr>Email = ''bot@x.com''\<rparr>\<rparr>,
               \<lparr>ID = ''U2'', IsBot = False, Profile = \<lparr>Email = ''b@x.com''\<rparr>\<rparr>], 6)"
    by (simp add: demo_client_def demo_user_def)
  from fst pages' info' get show ?thesis
    by (intro conjI)
qed

text \<open>
  C10. An \<^verbatim>\<open>Add\<close> whose invitation the remote refuses leaves the cache field \<^verbatim>\<open>nil\<close>
  (line 142). On an adapter whose cache is \<^verbatim>\<open>nil\<close>, a \<^verbatim>\<open>Get\<close> whose resolved users
  include one that is not a bot panics at the write of line 114, and an \<^verbatim>\<open>Add\<close>
  whose first email resolves panics at the write of line 137 (a later email is
  only reached through that write): neither returns. The cache stays \<^verbatim>\<open>nil\<close>
  through every \<^verbatim>\<open>Add\<close>, \<^verbatim>\<open>Remove\<close> and \<^verbatim>\<open>Get\<close>, however it ends, so only an adapter
  made anew by \<^verbatim>\<open>New\<close> has a map again.
\<close>

theorem nil_cache_after_failed_invite:
  "(resolve_emails (client c0) (remote c0) emails = Some (users, s1)
      \<and> InviteUsersToConversation (client c0) (conversationName c0) (map ID users) s1
          = (Some err, s2)
    \<longrightarrow> cache (snd (Add c0 emails)) = NilMap)
   \<and> (cache c = NilMap
      \<and> serve_pages (client c) (conversationName c) [] (remote c) (pre @ [(page, [])])
          = Some s3
      \<and> (\<forall>q \<in> set pre. snd q \<noteq> [])
      \<and> GetUsersInfo (client c) (concat (map fst pre) @ page) s3 = (Inr found, s4)
      \<and> (\<exists>u \<in> set found. \<not> IsBot u)
    \<longrightarrow> (\<exists>c'. Get c = Some (Panics nil_map_panic, c') \<and> cache c' = NilMap))
   \<and> (cache c = NilMap
      \<and> GetUserByEmail (client c) email (remote c) = (Inr user, s5)
    \<longrightarrow> (\<exists>c'. Add c (email # rest) = (Panics nil_map_panic, c') \<and> cache c' = NilMap))
   \<and> (cache c = NilMap
    \<longrightarrow> cache (snd (Add c emails)) = NilMap
      \<and> cache (snd (Remove c emails)) = NilMap
      \<and> (\<forall>r c'. Get c = Some (r, c') \<longrightarrow> cache c' = NilMap))"
proof (intro conjI impI allI; (elim conjE)?)
  assume "resolve_emails (client c0) (remote c0) emails = Some (users, s1)"
    and "InviteUsersToConversation (client c0) (conversationName c0) (map ID users) s1
          = (Some err, s2)"
  then show "cache (snd (Add c0 emails)) = NilMap"
    by (rule Add_invite_refused_NilMap)
next
  assume nil: "cache c = NilMap"
    and "serve_pages (client c) (conversationName c) [] (remote c) (pre @ [(page, [])])
          = Some s3"
    and "\<forall>q \<in> set pre. snd q \<noteq> []"
    and "GetUsersInfo (client c) (concat (map fst pre) @ page) s3 = (Inr found, s4)"
    and "\<exists>u \<in> set found. \<not> IsBot u"
  from Get_panics_NilMap [OF this] nil
  show "\<exists>c'. Get c = Some (Panics nil_map_panic, c') \<and> cache c' = NilMap"
    by simp
next
  assume nil: "cache c = NilMap"
    and "GetUserByEmail (client c) email (remote c) = (Inr user, s5)"
  from Add_loop_NilMap [OF this(2) nil] nil
  show "\<exists>c'. Add c (email # rest) = (Panics nil_map_panic, c') \<and> cache c' = NilMap"
    by (simp add: Add_def)
next
  assume "cache c = NilMap"
  then show "cache (snd (Add c emails)) = NilMap"
    by (rule Add_keeps_NilMap)
next
  assume "cache c = NilMap"
  then show "cache (snd (Remove c emails)) = NilMap"
    by (rule Remove_keeps_NilMap)
next
  fix r c'
  assume "cache c = NilMap" and "Get c = Some (r, c')"
  then show "cache c' = NilMap"
    by (rule Get_NilMap)
qed

theorem nil_cache_after_failed_invite_witness:
  "cache (snd (Add (New demo_client 0 ''C1'' []) [''a@x.com'', ''b@x.com''])) = NilMap
   \<and> (\<exists>c'. Get (snd (Add (New demo_client 0 ''C1'' []) [''a@x.com'', ''b@x.com'']))
            = Some (Panics nil_map_panic, c'))
   \<and> (\<exists>c'. Add (snd (Add (New demo_client 0 ''C1'' []) [''a@x.com'', ''b@x.com'']))
              [''a@x.com''] = (Panics nil_map_panic, c'))
   \<and> cache (snd (Remove (snd (Add (New demo_client 0 ''C1'' []) [''a@x.com'', ''b@x.com'']))
                     [''a@x.com''])) = NilMap"
proof -
  let ?new = "New demo_client 0 ''C1'' []"
  let ?c = "snd (Add ?new [''a@x.com'', ''b@x.com''])"
  have c: "?c = \<lparr>client = demo_client, remote = 3,
       calls = [CallGetUserByEmail ''a@x.com'', CallGetUserByEmail ''b@x.com'',
                CallInviteUsersToConversation ''C1'' [''U1'', ''U2'']],
       conversationName = ''C1'', cache = NilMap\<rparr>"
    by (simp add: Add_def New_def demo_client_def demo_user_def call_GetUserByEmail_def
        call_InviteUsersToConversation_def)
  have refused: "resolve_emails (client ?new) (remote ?new) [''a@x.com'', ''b@x.com'']
        = Some ([demo_user ''U1'', demo_user ''U2''], 2)
      \<and> InviteUsersToConversation (client ?new) (conversationName ?new)
          (map ID [demo_user ''U1'', demo_user ''U2'']) 2 = (Some (ClientError ''cant_invite''), 3)"
    by (simp add: New_def demo_client_def demo_user_def)
  have get: "cache ?c = NilMap
      \<and> serve_pages (client ?c) (conversationName ?c) [] (remote ?c)
          ([([''U1'', ''B1''], ''p2'')] @ [([''U2''], [])]) = Some 5
      \<and> (\<forall>q \<in> set [([''U1'', ''B1''], ''p2'')]. snd q \<noteq> [])
      \<and> GetUsersInfo (client ?c) (concat (map fst [([''U1'', ''B1''], ''p2'')]) @ [''U2'']) 5
          = (Inr (map demo_user [''U1'', ''B1'', ''U2'']), 6)
      \<and> (\<exists>u \<in> set (map demo_user [''U1'', ''B1'', ''U2'']). \<not> IsBot u)"
    unfolding c by (simp add: demo_client_def demo_user_def)
  have add: "cache ?c = NilMap
      \<and> GetUserByEmail (client ?c) ''a@x.com'' (remote ?c) = (Inr (demo_user ''U1''), 4)"
    unfolding c by (simp add: demo_client_def)
  have nil: "cache ?c = NilMap"
    by (simp add: c)
  note T = nil_cache_after_failed_invite
  from T [of ?new "[''a@x.com'', ''b@x.com'']" "[demo_user ''U1'', demo_user ''U2'']" 2
            "ClientError ''cant_invite''" 3, THEN conjunct1, rule_format, OF refused]
    T [of _ _ _ _ _ _ ?c "[([''U1'', ''B1''], ''p2'')]" "[''U2'']" 5
          "map demo_user [''U1'', ''B1'', ''U2'']" 6,
       THEN conjunct2, THEN conjunct1, rule_format, OF get]
    T [of _ _ _ _ _ _ ?c _ _ _ _ _ "''a@x.com''" "demo_user ''U1''" 4 "[]",
       THEN conjunct2, THEN conjunct2, THEN conjunct1, rule_format, OF add]
    T [of _ "[''a@x.com'']" _ _ _ _ ?c,
       THEN conjunct2, THEN conjunct2, THEN conjunct2, rule_format, OF nil,
       THEN conjunct2, THEN conjunct1]
  show ?thesis
    by blast
qed

end
